theory Spec2Isabelle
  imports Main "HOL-Library.Word"
begin

unbundle bit_operations_syntax

section \<open>Bytes, errors and the struct module\<close>

text \<open>
  A Python \<open>bytes\<close> object is a list of 8-bit words; Python integers are \<open>int\<close>.
  Every exception the modelled code can raise is a constructor of \<open>error\<close>, and a
  function that can raise returns \<open>error + 'a\<close> with \<open>Inl\<close> for the exception.
\<close>

type_synonym byte = "8 word"

datatype host_msg =
    CmdNotOneByte
  | NotificationsNotEnabled
  | PacketMalformed
  | PacketCorrupted
  | NotificationNotReceived

datatype error =
    HostError host_msg
  | DFUErrorVerify
  | DFUErrorLength
  | DFUErrorData
  | DFUErrorCmd
  | DFUErrorChecksum
  | DFUErrorRow
  | DFUErrorRowAccess
  | DFUErrorUnknown
  | UnexpectedError
  | InvalidFileType
  | InvalidApplicationFile
  | StructError
  | ValueError
  | IndexError
  | StopIteration
  | FileNotFoundError

text \<open>
  \<open>struct.pack\<close> with the formats \<open><B\<close>, \<open><H\<close>, \<open><I\<close>: standard size, little-endian,
  no alignment; \<open>struct.error\<close> when the value does not fit the field.
\<close>

definition pack_B :: "int \<Rightarrow> error + byte list" where
  "pack_B v = (if 0 \<le> v \<and> v \<le> 255 then Inr [word_of_int v] else Inl StructError)"

definition pack_H :: "int \<Rightarrow> error + byte list" where
  "pack_H v =
     (if 0 \<le> v \<and> v \<le> 65535 then Inr [word_of_int v, word_of_int (v div 256)]
      else Inl StructError)"

definition pack_I :: "int \<Rightarrow> error + byte list" where
  "pack_I v =
     (if 0 \<le> v \<and> v \<le> 4294967295
      then Inr [word_of_int v, word_of_int (v div 256),
                word_of_int (v div 65536), word_of_int (v div 16777216)]
      else Inl StructError)"

text \<open>The value of a little-endian field, as \<open>struct.unpack\<close> reads it.\<close>

fun le_int :: "byte list \<Rightarrow> int" where
  "le_int [] = 0"
| "le_int (b # bs) = uint b + 256 * le_int bs"

section \<open>Packet codec\<close>

definition START_OF_PACKET :: "byte list" where "START_OF_PACKET = [0x01]"
definition END_OF_PACKET :: "byte list" where "END_OF_PACKET = [0x17]"

definition CMD_ENTER_DFU :: "byte list" where "CMD_ENTER_DFU = [0x38]"
definition CMD_EXIT_DFU :: "byte list" where "CMD_EXIT_DFU = [0x3B]"
definition CMD_SEND_DATA :: "byte list" where "CMD_SEND_DATA = [0x37]"
definition CMD_PROGRAM_DATA :: "byte list" where "CMD_PROGRAM_DATA = [0x49]"
definition CMD_VERIFY_APPLICATION :: "byte list" where "CMD_VERIFY_APPLICATION = [0x31]"
definition CMD_SET_APPLICATION_METADATA :: "byte list" where
  "CMD_SET_APPLICATION_METADATA = [0x4C]"

text \<open>
  \<open>_calcChecksum_2sComplement_16bit\<close>: the loop \<open>cs = cs + b\<close> over the bytes, then
  \<open>-cs & 0xFFFF\<close>.
\<close>

definition calcChecksum_2sComplement_16bit :: "byte list \<Rightarrow> int" where
  "calcChecksum_2sComplement_16bit data =
     (- foldl (\<lambda>cs b. cs + uint b) 0 data) AND 0xFFFF"

text \<open>
  \<open>_createCmdPacket\<close>: \<open>cmd\<close> must be one byte; the header is packed with
  \<open><ccH{n}s\<close> (\<open>struct.error\<close> when the payload length does not fit \<open>H\<close>), then the
  checksum of the packet so far and the end byte are appended with \<open><Hc\<close>.
\<close>

definition createCmdPacket :: "byte list \<Rightarrow> byte list \<Rightarrow> error + byte list" where
  "createCmdPacket cmd payload =
     (if length cmd \<noteq> 1 then Inl (HostError CmdNotOneByte)
      else
        (case pack_H (int (length payload)) of
           Inl e \<Rightarrow> Inl e
         | Inr payloadLength \<Rightarrow>
             (let packet = START_OF_PACKET @ cmd @ payloadLength @ payload in
              (case pack_H (calcChecksum_2sComplement_16bit packet) of
                 Inl e \<Rightarrow> Inl e
               | Inr checksum \<Rightarrow> Inr (packet @ checksum @ END_OF_PACKET)))))"

text \<open>
  \<open>_getResponse\<close>: \<open>packet[0:4]\<close> must be four bytes for \<open><ccH\<close>, and \<open>packet[4:]\<close>
  must be exactly \<open>dataLength + 3\<close> bytes for \<open><{dataLength}sHc\<close>; any failure of the
  two unpacks is turned into the malformed-packet \<open>HostError\<close>. Then the markers and
  the checksum of \<open>packet[:-3]\<close> are checked.
\<close>

definition getResponse :: "byte list \<Rightarrow> error + (byte list \<times> byte list)" where
  "getResponse packet =
     (case take 4 packet of
        [startByte, statusCode, l0, l1] \<Rightarrow>
          (let dataLength = le_int [l0, l1]; rest = drop 4 packet in
           if int (length rest) \<noteq> dataLength + 3 then Inl (HostError PacketMalformed)
           else
             (let payload = take (nat dataLength) rest;
                  checksum = le_int (take 2 (drop (nat dataLength) rest));
                  endByte = drop (nat dataLength + 2) rest in
              if [startByte] \<noteq> START_OF_PACKET \<or> endByte \<noteq> END_OF_PACKET
              then Inl (HostError PacketMalformed)
              else if calcChecksum_2sComplement_16bit (take (length packet - 3) packet)
                        \<noteq> checksum
              then Inl (HostError PacketCorrupted)
              else Inr ([statusCode], payload)))
      | _ \<Rightarrow> Inl (HostError PacketMalformed))"

section \<open>Status interpreter\<close>

text \<open>
  \<open>_DFU_STATUS_CODE\<close>: the dictionary from a one-byte \<open>bytes\<close> key to the exception
  class to raise, \<open>None\<close> for success.
\<close>

definition DFU_STATUS_CODE :: "byte list \<rightharpoonup> error option" where
  "DFU_STATUS_CODE =
     map_of
       [([0x00], None),
        ([0x02], Some DFUErrorVerify),
        ([0x03], Some DFUErrorLength),
        ([0x04], Some DFUErrorData),
        ([0x05], Some DFUErrorCmd),
        ([0x08], Some DFUErrorChecksum),
        ([0x0A], Some DFUErrorRow),
        ([0x0B], Some DFUErrorRowAccess),
        ([0x0F], Some DFUErrorUnknown)]"

text \<open>\<open>_checkStatusCode\<close>: a missing key is \<open>UnexpectedError\<close>.\<close>

definition checkStatusCode :: "byte list \<Rightarrow> error + unit" where
  "checkStatusCode code =
     (case DFU_STATUS_CODE code of
        None \<Rightarrow> Inl UnexpectedError
      | Some ex \<Rightarrow> (case ex of None \<Rightarrow> Inr () | Some e \<Rightarrow> Inl e))"

section \<open>Strings\<close>

text \<open>
  \<open>str.strip()\<close> removes the characters for which \<open>str.isspace\<close> holds from both
  ends; the code points below 256 with that property are listed here.
\<close>

definition isspace :: "char \<Rightarrow> bool" where
  "isspace c = ((of_char c :: nat) \<in> {0x09, 0x0A, 0x0B, 0x0C, 0x0D, 0x1C, 0x1D, 0x1E, 0x1F, 0x20, 0x85, 0xA0})"

definition str_strip :: "string \<Rightarrow> string" where
  "str_strip s = rev (dropWhile isspace (rev (dropWhile isspace s)))"

text \<open>\<open>str.split(sep)\<close> for a one-character separator: never an empty list.\<close>

fun str_split :: "char \<Rightarrow> string \<Rightarrow> string list" where
  "str_split sep [] = [[]]"
| "str_split sep (c # s) =
     (if c = sep then [] # str_split sep s
      else (case str_split sep s of [] \<Rightarrow> [[c]] | p # ps \<Rightarrow> (c # p) # ps))"

definition endswith :: "string \<Rightarrow> string \<Rightarrow> bool" where
  "endswith s suffix = (length suffix \<le> length s \<and> drop (length s - length suffix) s = suffix)"

text \<open>
  \<open>bytes.fromhex\<close>: two hexadecimal digits per byte; ASCII whitespace is skipped in
  front of a byte, never inside one; anything else is \<open>ValueError\<close>.
\<close>

definition hexspace :: "char \<Rightarrow> bool" where
  "hexspace c = ((of_char c :: nat) \<in> {0x09, 0x0A, 0x0B, 0x0C, 0x0D, 0x20})"

definition hexval :: "char \<Rightarrow> nat option" where
  "hexval c =
     (let n = (of_char c :: nat) in
      if 48 \<le> n \<and> n \<le> 57 then Some (n - 48)
      else if 97 \<le> n \<and> n \<le> 102 then Some (n - 87)
      else if 65 \<le> n \<and> n \<le> 70 then Some (n - 55)
      else None)"

fun fromhex :: "string \<Rightarrow> error + byte list" where
  "fromhex [] = Inr []"
| "fromhex [c] = (if hexspace c then Inr [] else Inl ValueError)"
| "fromhex (c # d # s) =
     (if hexspace c then fromhex (d # s)
      else
        (case (hexval c, hexval d) of
           (Some hi, Some lo) \<Rightarrow>
             (case fromhex s of
                Inl e \<Rightarrow> Inl e
              | Inr bs \<Rightarrow> Inr (word_of_nat (16 * hi + lo) # bs))
         | _ \<Rightarrow> Inl ValueError))"

section \<open>Image parser\<close>

text \<open>
  The \<open>Application\<close> object. \<open>app_file\<close> is the open file read through \<open>next\<close>: the
  lines not yet consumed, each as the iterator yields it (with its line end). The
  attributes that \<open>__init__\<close> assigns later hold 0 until then.
\<close>

record application =
  app_file :: "string list"
  numRows :: int
  currRow :: int
  fileVersion :: int
  siliconID :: int
  siliconRevision :: int
  checksumType :: int
  appID :: int
  productID :: int
  startAddr :: int
  app_length :: int

text \<open>
  \<open>getHeader\<close>: the next line, stripped and hex-decoded, must be 12 bytes; they are
  unpacked with \<open><BIBBBI\<close>.
\<close>

definition getHeader :: "application \<Rightarrow> error + application" where
  "getHeader app =
     (case app_file app of
        [] \<Rightarrow> Inl StopIteration
      | line # rest \<Rightarrow>
          (case fromhex (str_strip line) of
             Inl e \<Rightarrow> Inl e
           | Inr header \<Rightarrow>
               if length header \<noteq> 12 then Inl InvalidApplicationFile
               else Inr (app\<lparr>app_file := rest,
                              fileVersion := le_int (take 1 header),
                              siliconID := le_int (take 4 (drop 1 header)),
                              siliconRevision := le_int (take 1 (drop 5 header)),
                              checksumType := le_int (take 1 (drop 6 header)),
                              appID := le_int (take 1 (drop 7 header)),
                              productID := le_int (take 4 (drop 8 header))\<rparr>)))"

text \<open>
  \<open>getAppInfo\<close>: the next line, stripped and split at \<open>:\<close>; the first piece must be
  \<open>@APPINFO\<close>; the second piece is split at \<open>,\<close> into exactly two texts, each read by
  \<open>int(_, 0)\<close>. The builtin \<open>int(_, 0)\<close> is the parameter \<open>pyint\<close>, \<open>None\<close> where it
  raises \<open>ValueError\<close>.
\<close>

definition getAppInfo :: "(string \<Rightarrow> int option) \<Rightarrow> application \<Rightarrow> error + application" where
  "getAppInfo pyint app =
     (case app_file app of
        [] \<Rightarrow> Inl StopIteration
      | line # rest \<Rightarrow>
          (case str_split CHR '':'' (str_strip line) of
             [] \<Rightarrow> Inl IndexError
           | label # pieces \<Rightarrow>
               if label \<noteq> ''@APPINFO'' then Inl InvalidApplicationFile
               else
                 (case pieces of
                    [] \<Rightarrow> Inl IndexError
                  | metadata # _ \<Rightarrow>
                      (case str_split CHR '','' metadata of
                         [a, b] \<Rightarrow>
                           (case pyint a of
                              None \<Rightarrow> Inl ValueError
                            | Some sa \<Rightarrow>
                                (case pyint b of
                                   None \<Rightarrow> Inl ValueError
                                 | Some len \<Rightarrow>
                                     Inr (app\<lparr>app_file := rest, startAddr := sa,
                                               app_length := len\<rparr>)))
                       | _ \<Rightarrow> Inl ValueError))))"

text \<open>
  \<open>Application.__init__\<close>. The file system is the argument \<open>contents\<close>: \<open>None\<close> when
  \<open>open\<close> finds no file, otherwise the lines of the file. \<open>_getNumLines\<close> counts all
  lines and leaves the position at the start.
\<close>

definition Application_init ::
  "(string \<Rightarrow> int option) \<Rightarrow> string \<Rightarrow> string list option \<Rightarrow> error + application" where
  "Application_init pyint cyacd2_file contents =
     (if \<not> endswith cyacd2_file ''.cyacd2'' then Inl InvalidFileType
      else
        (case contents of
           None \<Rightarrow> Inl FileNotFoundError
         | Some ls \<Rightarrow>
             (let app0 = \<lparr>app_file = ls, numRows = int (length ls), currRow = 0,
                          fileVersion = 0, siliconID = 0, siliconRevision = 0,
                          checksumType = 0, appID = 0, productID = 0,
                          startAddr = 0, app_length = 0\<rparr> in
              (case getHeader app0 of
                 Inl e \<Rightarrow> Inl e
               | Inr app1 \<Rightarrow>
                   (let app2 = app1\<lparr>numRows := numRows app1 - 1\<rparr> in
                    (case getAppInfo pyint app2 of
                       Inl e \<Rightarrow> Inl e
                     | Inr app3 \<Rightarrow>
                         Inr (app3\<lparr>numRows := numRows app3 - 1, currRow := 0\<rparr>)))))))"

text \<open>
  \<open>getNextRow\<close>: \<open>StopIteration\<close> at the end of the file. The row counter is advanced
  as soon as the \<open>:\<close> is seen; the text after it is stripped and hex-decoded, and
  \<open><I{n}s\<close> with \<open>n = len(row) - 4\<close> splits it (\<open>struct.error\<close> for fewer than four
  bytes).
\<close>

definition getNextRow :: "application \<Rightarrow> (error + (int \<times> byte list)) \<times> application" where
  "getNextRow app =
     (case app_file app of
        [] \<Rightarrow> (Inl StopIteration, app)
      | row # rest \<Rightarrow>
          (let app1 = app\<lparr>app_file := rest\<rparr> in
           (case row of
              [] \<Rightarrow> (Inl IndexError, app1)
            | c # after \<Rightarrow>
                if c \<noteq> CHR '':'' then (Inl InvalidApplicationFile, app1)
                else
                  (let app2 = app1\<lparr>currRow := currRow app1 + 1\<rparr> in
                   (case fromhex (str_strip after) of
                      Inl e \<Rightarrow> (Inl e, app2)
                    | Inr bs \<Rightarrow>
                        if length bs < 4 then (Inl StructError, app2)
                        else (Inr (le_int (take 4 bs), drop 4 bs), app2))))))"

section \<open>Transport\<close>

text \<open>
  The list comprehension \<open>[xs[i:i+n] for i in range(0, len(xs), n)]\<close> for a positive
  step \<open>n\<close>: consecutive slices of \<open>n\<close> elements, the last one shorter.
\<close>

fun slices :: "nat \<Rightarrow> 'a list \<Rightarrow> 'a list list" where
  "slices n xs = (if n = 0 \<or> xs = [] then [] else take n xs # slices n (drop n xs))"

declare slices.simps [simp del]

text \<open>
  The same comprehension for any integer step, as \<open>range\<close> takes it: step 0 is
  \<open>ValueError\<close>, a negative step gives the empty range.
\<close>

definition slices_by :: "int \<Rightarrow> 'a list \<Rightarrow> error + 'a list list" where
  "slices_by n xs =
     (if n = 0 then Inl ValueError else if n < 0 then Inr [] else Inr (slices (nat n) xs))"

text \<open>
  The peripheral as the host sees it. \<open>cmdHandle\<close> is the handle of the bootloader
  command characteristic, \<open>cccdValue\<close> what the descriptor reads back after
  notifications were switched on.
\<close>

record peripheral =
  cmdHandle :: nat
  cccdValue :: "byte list"

text \<open>
  The state of the link. \<open>writes\<close> collects every argument of \<open>_dfuCmdChar.write\<close>,
  oldest first. \<open>pending\<close> is what the coming calls of \<open>waitForNotifications\<close> will
  bring, one entry per call: \<open>Some (handle, data)\<close> for a notification passed to the
  delegate, \<open>None\<close> for a timeout; no entry left is a timeout too. \<open>dhandle\<close> and
  \<open>ddata\<close> are the two fields of the \<open>Delegate\<close>.
\<close>

record link =
  writes :: "byte list list"
  pending :: "(nat \<times> byte list) option list"
  dhandle :: "nat option"
  ddata :: "byte list option"

text \<open>\<open>_sendPacket\<close>: the packet is written in pieces of \<open>maxLen\<close> bytes.\<close>

definition sendPacket :: "nat \<Rightarrow> byte list \<Rightarrow> link \<Rightarrow> link" where
  "sendPacket maxLen packet l = l\<lparr>writes := writes l @ slices maxLen packet\<rparr>"

text \<open>
  \<open>_waitForResponse\<close>: false on a timeout, and false when the notification came from
  another handle.
\<close>

definition waitForResponse :: "peripheral \<Rightarrow> link \<Rightarrow> bool \<times> link" where
  "waitForResponse P l =
     (case pending l of
        [] \<Rightarrow> (False, l)
      | None # rest \<Rightarrow> (False, l\<lparr>pending := rest\<rparr>)
      | Some (h, d) # rest \<Rightarrow>
          (let l' = l\<lparr>pending := rest, dhandle := Some h, ddata := Some d\<rparr> in
           if dhandle l' \<noteq> Some (cmdHandle P) then (False, l') else (True, l')))"

text \<open>\<open>_enableNotifications\<close>, called by the constructor of \<open>DFUProtocol\<close>.\<close>

definition enableNotifications :: "peripheral \<Rightarrow> error + unit" where
  "enableNotifications P =
     (if cccdValue P \<noteq> [0x01, 0x00] then Inl (HostError NotificationsNotEnabled)
      else Inr ())"

text \<open>
  \<open>_sendCommandGetResponse\<close>: build the packet, send it, wait, decode the delegate's
  data and check the status. A delegate holding no data makes the decoder's slicing
  fail, which the decoder reports as a malformed packet.
\<close>

definition sendCommandGetResponse ::
  "peripheral \<Rightarrow> byte list \<Rightarrow> byte list \<Rightarrow> link \<Rightarrow> (error + byte list) \<times> link" where
  "sendCommandGetResponse P cmd payload l =
     (case createCmdPacket cmd payload of
        Inl e \<Rightarrow> (Inl e, l)
      | Inr packet \<Rightarrow>
          (case waitForResponse P (sendPacket 20 packet l) of
             (False, l') \<Rightarrow> (Inl (HostError NotificationNotReceived), l')
           | (True, l') \<Rightarrow>
               (case (case ddata l' of
                        None \<Rightarrow> Inl (HostError PacketMalformed)
                      | Some d \<Rightarrow> getResponse d) of
                  Inl e \<Rightarrow> (Inl e, l')
                | Inr (statusCode, respData) \<Rightarrow>
                    (case checkStatusCode statusCode of
                       Inl e \<Rightarrow> (Inl e, l')
                     | Inr _ \<Rightarrow> (Inr respData, l')))))"

section \<open>Protocol engine\<close>

text \<open>
  \<open>struct.unpack("<IBI", \<dots>)\<close>: exactly nine bytes, otherwise \<open>struct.error\<close>.
\<close>

definition unpack_IBI :: "byte list \<Rightarrow> error + (int \<times> int \<times> int)" where
  "unpack_IBI buf =
     (if length buf \<noteq> 9 then Inl StructError
      else Inr (le_int (take 4 buf), le_int (take 1 (drop 4 buf)), le_int (drop 5 buf)))"

text \<open>
  \<open>enterDFU\<close>: the payload is \<open><I\<close> of the product id; the response is unpacked from
  \<open>respData[:5] + b'\x00' + respData[5:]\<close>. The three values the source prints are
  the result here.
\<close>

definition enterDFU ::
  "peripheral \<Rightarrow> int \<Rightarrow> link \<Rightarrow> (error + (int \<times> int \<times> int)) \<times> link" where
  "enterDFU P prodID l =
     (case pack_I prodID of
        Inl e \<Rightarrow> (Inl e, l)
      | Inr payload \<Rightarrow>
          (case sendCommandGetResponse P CMD_ENTER_DFU payload l of
             (Inl e, l') \<Rightarrow> (Inl e, l')
           | (Inr respData, l') \<Rightarrow>
               (case unpack_IBI (take 5 respData @ [0x00] @ drop 5 respData) of
                  Inl e \<Rightarrow> (Inl e, l')
                | Inr printed \<Rightarrow> (Inr printed, l'))))"

text \<open>\<open>exitDFU\<close>: the packet is sent and no response is awaited.\<close>

definition exitDFU :: "link \<Rightarrow> (error + unit) \<times> link" where
  "exitDFU l =
     (case createCmdPacket CMD_EXIT_DFU [] of
        Inl e \<Rightarrow> (Inl e, l)
      | Inr packet \<Rightarrow> (Inr (), sendPacket 20 packet l))"

definition sendData :: "peripheral \<Rightarrow> byte list \<Rightarrow> link \<Rightarrow> (error + unit) \<times> link" where
  "sendData P data l =
     (case sendCommandGetResponse P CMD_SEND_DATA data l of
        (Inl e, l') \<Rightarrow> (Inl e, l')
      | (Inr _, l') \<Rightarrow> (Inr (), l'))"

text \<open>\<open>struct.pack("<II", a, b)\<close> and \<open>struct.pack("<BII", n, a, b)\<close>.\<close>

definition pack_II :: "int \<Rightarrow> int \<Rightarrow> error + byte list" where
  "pack_II a b =
     (case pack_I a of
        Inl e \<Rightarrow> Inl e
      | Inr x \<Rightarrow> (case pack_I b of Inl e \<Rightarrow> Inl e | Inr y \<Rightarrow> Inr (x @ y)))"

definition pack_BII :: "int \<Rightarrow> int \<Rightarrow> int \<Rightarrow> error + byte list" where
  "pack_BII n a b =
     (case pack_B n of
        Inl e \<Rightarrow> Inl e
      | Inr x \<Rightarrow> (case pack_II a b of Inl e \<Rightarrow> Inl e | Inr y \<Rightarrow> Inr (x @ y)))"

definition programData ::
  "peripheral \<Rightarrow> int \<Rightarrow> int \<Rightarrow> byte list \<Rightarrow> link \<Rightarrow> (error + unit) \<times> link" where
  "programData P rowAddr rowDataChecksum data l =
     (case pack_II rowAddr rowDataChecksum of
        Inl e \<Rightarrow> (Inl e, l)
      | Inr hdr \<Rightarrow>
          (case sendCommandGetResponse P CMD_PROGRAM_DATA (hdr @ data) l of
             (Inl e, l') \<Rightarrow> (Inl e, l')
           | (Inr _, l') \<Rightarrow> (Inr (), l')))"

text \<open>
  \<open>verifyApplication\<close>: the response must be one byte for \<open><B\<close>; its value is
  returned.
\<close>

definition verifyApplication ::
  "peripheral \<Rightarrow> int \<Rightarrow> link \<Rightarrow> (error + int) \<times> link" where
  "verifyApplication P appNum l =
     (case pack_B appNum of
        Inl e \<Rightarrow> (Inl e, l)
      | Inr payload \<Rightarrow>
          (case sendCommandGetResponse P CMD_VERIFY_APPLICATION payload l of
             (Inl e, l') \<Rightarrow> (Inl e, l')
           | (Inr respData, l') \<Rightarrow>
               if length respData \<noteq> 1 then (Inl StructError, l')
               else (Inr (le_int respData), l')))"

definition setApplicationMetadata ::
  "peripheral \<Rightarrow> int \<Rightarrow> int \<Rightarrow> int \<Rightarrow> link \<Rightarrow> (error + unit) \<times> link" where
  "setApplicationMetadata P appNum appStartAddr appLength l =
     (case pack_BII appNum appStartAddr appLength of
        Inl e \<Rightarrow> (Inl e, l)
      | Inr payload \<Rightarrow>
          (case sendCommandGetResponse P CMD_SET_APPLICATION_METADATA payload l of
             (Inl e, l') \<Rightarrow> (Inl e, l')
           | (Inr _, l') \<Rightarrow> (Inr (), l')))"

section \<open>Update orchestrator\<close>

text \<open>
  \<open>for chunk in rowData[:-1]: hostCmd.sendData(chunk)\<close>, stopping at the first
  exception.
\<close>

fun sendChunks :: "peripheral \<Rightarrow> byte list list \<Rightarrow> link \<Rightarrow> (error + unit) \<times> link" where
  "sendChunks P [] l = (Inr (), l)"
| "sendChunks P (chunk # chunks) l =
     (case sendData P chunk l of
        (Inl e, l') \<Rightarrow> (Inl e, l')
      | (Inr _, l') \<Rightarrow> sendChunks P chunks l')"

text \<open>
  The body of the row loop after a row was read: the CRC-32C of the whole row (the
  function made by \<open>crcmod\<close> is the parameter \<open>crc32cFunc\<close>), the row cut in pieces of
  \<open>maxDataLength\<close> bytes, all pieces but the last through \<open>sendData\<close>, the last one
  through \<open>programData\<close>; \<open>rowData[-1]\<close> of an empty list is \<open>IndexError\<close>.
\<close>

definition sendRow ::
  "(byte list \<Rightarrow> 32 word) \<Rightarrow> peripheral \<Rightarrow> int \<Rightarrow> int \<Rightarrow> byte list \<Rightarrow> link
     \<Rightarrow> (error + unit) \<times> link" where
  "sendRow crc32cFunc P maxDataLength rowAddr rowData l =
     (let crc = uint (crc32cFunc rowData) in
      (case slices_by maxDataLength rowData of
         Inl e \<Rightarrow> (Inl e, l)
       | Inr chunks \<Rightarrow>
           (case sendChunks P (butlast chunks) l of
              (Inl e, l') \<Rightarrow> (Inl e, l')
            | (Inr _, l') \<Rightarrow>
                if chunks = [] then (Inl IndexError, l')
                else programData P rowAddr crc (last chunks) l')))"

text \<open>
  The \<open>while True\<close> loop of \<open>updateFirmware\<close>: any exception of \<open>getNextRow\<close> ends
  the loop; an exception while a row is sent leaves \<open>updateFirmware\<close>.
\<close>

function sendRows ::
  "(byte list \<Rightarrow> 32 word) \<Rightarrow> peripheral \<Rightarrow> int \<Rightarrow> application \<Rightarrow> link
     \<Rightarrow> (error + unit) \<times> application \<times> link" where
  "sendRows crc32cFunc P maxDataLength app l =
     (case getNextRow app of
        (Inl e, app') \<Rightarrow> (Inr (), app', l)
      | (Inr (rowAddr, rowData), app') \<Rightarrow>
          (case sendRow crc32cFunc P maxDataLength rowAddr rowData l of
             (Inl e, l') \<Rightarrow> (Inl e, app', l')
           | (Inr _, l') \<Rightarrow> sendRows crc32cFunc P maxDataLength app' l'))"
  by pat_completeness auto
termination
proof (relation "measure (\<lambda>(crc32cFunc, P, maxDataLength, app, l). length (app_file app))")
  show "wf (measure (\<lambda>(crc32cFunc, P, maxDataLength, app, l). length (app_file app)))"
    by simp
next
  fix crc32cFunc :: "byte list \<Rightarrow> 32 word" and P :: peripheral and maxDataLength :: int
    and app app' :: application and l l' :: link and x r rowAddr rowData y u
  assume "(x, app') = getNextRow app" and "x = Inr r"
  then have "length (app_file app') < length (app_file app)"
    by (auto simp: getNextRow_def Let_def split: list.splits if_splits sum.splits)
  then show "((crc32cFunc, P, maxDataLength, app', l'), (crc32cFunc, P, maxDataLength, app, l))
               \<in> measure (\<lambda>(crc32cFunc, P, maxDataLength, app, l). length (app_file app))"
    by simp
qed

declare sendRows.simps [simp del]

text \<open>
  \<open>Target.updateFirmware\<close>. \<open>fwImg\<close> is the module's global of that name, which the
  source reads for \<open>verifyApplication\<close>; the script passes the same image as \<open>app\<close>.
  The value of \<open>verifyApplication\<close>, which the source only prints, is the result.
\<close>

definition updateFirmware ::
  "(byte list \<Rightarrow> 32 word) \<Rightarrow> peripheral \<Rightarrow> application \<Rightarrow> application \<Rightarrow> int \<Rightarrow> link
     \<Rightarrow> (error + int) \<times> application \<times> link" where
  "updateFirmware crc32cFunc P fwImg app maxDataLength l =
     (case enableNotifications P of
        Inl e \<Rightarrow> (Inl e, app, l)
      | Inr _ \<Rightarrow>
          (case enterDFU P (productID app) l of
             (Inl e, l1) \<Rightarrow> (Inl e, app, l1)
           | (Inr _, l1) \<Rightarrow>
               (case setApplicationMetadata P (appID app) (startAddr app) (app_length app) l1 of
                  (Inl e, l2) \<Rightarrow> (Inl e, app, l2)
                | (Inr _, l2) \<Rightarrow>
                    (case sendRows crc32cFunc P maxDataLength app l2 of
                       (Inl e, app', l3) \<Rightarrow> (Inl e, app', l3)
                     | (Inr _, app', l3) \<Rightarrow>
                         (case verifyApplication P (appID fwImg) l3 of
                            (Inl e, l4) \<Rightarrow> (Inl e, app', l4)
                          | (Inr result, l4) \<Rightarrow>
                              (case exitDFU l4 of
                                 (Inl e, l5) \<Rightarrow> (Inl e, app', l5)
                               | (Inr _, l5) \<Rightarrow> (Inr result, app', l5)))))))"

section \<open>Notions used to state the properties\<close>

text \<open>The bytes of the packet for a command, empty where the encoder raises.\<close>

definition packet_of :: "byte list \<Rightarrow> byte list \<Rightarrow> byte list" where
  "packet_of cmd payload = (case createCmdPacket cmd payload of Inl e \<Rightarrow> [] | Inr p \<Rightarrow> p)"

text \<open>What \<open>_dfuCmdChar.write\<close> receives for a sequence of packets sent one after another.\<close>

definition written :: "byte list list \<Rightarrow> byte list list" where
  "written packets = concat (map (slices 20) packets)"

text \<open>\<open>n\<close> successive calls of \<open>getNextRow\<close>, stopping at the first exception.\<close>

fun readRows :: "nat \<Rightarrow> application \<Rightarrow> (error + (int \<times> byte list) list) \<times> application" where
  "readRows 0 app = (Inr [], app)"
| "readRows (Suc n) app =
     (case getNextRow app of
        (Inl e, app') \<Rightarrow> (Inl e, app')
      | (Inr row, app') \<Rightarrow>
          (case readRows n app' of
             (Inl e, app'') \<Rightarrow> (Inl e, app'')
           | (Inr rows, app'') \<Rightarrow> (Inr (row # rows), app'')))"

text \<open>
  A notification from the command characteristic whose packet decodes to status
  \<open>0x00\<close> with payload \<open>resp\<close>.
\<close>

definition success_reply :: "byte list \<Rightarrow> byte list \<Rightarrow> bool" where
  "success_reply d resp = (getResponse d = Inr ([0x00], resp))"

text \<open>The response packet with status \<open>0x00\<close> and no payload.\<close>

definition empty_ok_reply :: "byte list" where
  "empty_ok_reply = [0x01, 0x00, 0x00, 0x00, 0xFF, 0xFF, 0x17]"

text \<open>
  The bytes that \<open>struct.pack\<close> gives for a value that fits the field: \<open><B\<close> and
  \<open><I\<close>.
\<close>

definition u8_bytes :: "int \<Rightarrow> byte list" where
  "u8_bytes v = [word_of_int v]"

definition u32_bytes :: "int \<Rightarrow> byte list" where
  "u32_bytes v =
     [word_of_int v, word_of_int (v div 256), word_of_int (v div 65536),
      word_of_int (v div 16777216)]"

text \<open>
  The function that \<open>crcmod.predefined.mkCrcFun('crc-32c')\<close> makes: CRC-32C with the
  reflected polynomial \<open>0x82F63B78\<close>, initial value and final XOR \<open>0xFFFFFFFF\<close>. The
  properties below hold for any function in its place and take it as a parameter; this
  one is the instance in the worked examples.
\<close>

definition crc32c_shift :: "32 word \<Rightarrow> 32 word" where
  "crc32c_shift c = (if bit c 0 then drop_bit 1 c XOR 0x82F63B78 else drop_bit 1 c)"

definition crc32c_byte :: "32 word \<Rightarrow> byte \<Rightarrow> 32 word" where
  "crc32c_byte c b = (crc32c_shift ^^ 8) (c XOR ucast b)"

definition crc32c :: "byte list \<Rightarrow> 32 word" where
  "crc32c data = foldl crc32c_byte 0xFFFFFFFF data XOR 0xFFFFFFFF"

section \<open>Properties of the packet codec and the status interpreter\<close>

lemma and_ffff: "(a::int) AND 0xFFFF = a mod 65536"
proof -
  have "(0xFFFF::int) = mask 16" by (simp add: mask_eq_exp_minus_1)
  then have "a AND 0xFFFF = take_bit 16 a" by (simp only: take_bit_eq_mask)
  then show ?thesis by (simp add: take_bit_eq_mod)
qed

lemma foldl_sum: "foldl (\<lambda>cs b. cs + uint b) a data = a + sum_list (map uint data)"
  by (induction data arbitrary: a) auto

lemma calcChecksum_eq: "calcChecksum_2sComplement_16bit data = (- sum_list (map uint data)) mod 65536"
  by (simp add: calcChecksum_2sComplement_16bit_def and_ffff foldl_sum)

lemma calcChecksum_range: "0 \<le> calcChecksum_2sComplement_16bit data" "calcChecksum_2sComplement_16bit data \<le> 65535"
  by (simp_all add: calcChecksum_eq) 

lemma le_int_H: "0 \<le> v \<Longrightarrow> v \<le> 65535 \<Longrightarrow> le_int [word_of_int v, word_of_int (v div 256) :: byte] = v"
  by (simp add: uint_word_of_int take_bit_eq_mod) 

lemma pack_H_ok: "0 \<le> v \<Longrightarrow> v \<le> 65535 \<Longrightarrow> pack_H v = Inr [word_of_int v, word_of_int (v div 256)]"
  by (simp add: pack_H_def)

lemma createCmdPacket_ok:
  assumes "length payload \<le> 65535"
  shows "createCmdPacket [c] payload =
     Inr ([0x01, c, word_of_int (int (length payload)), word_of_int (int (length payload) div 256)] @ payload @
          [word_of_int (calcChecksum_2sComplement_16bit ([0x01, c, word_of_int (int (length payload)), word_of_int (int (length payload) div 256)] @ payload)),
           word_of_int (calcChecksum_2sComplement_16bit ([0x01, c, word_of_int (int (length payload)), word_of_int (int (length payload) div 256)] @ payload) div 256),
           0x17])"
  using assms calcChecksum_range
  by (simp add: createCmdPacket_def pack_H_ok START_OF_PACKET_def END_OF_PACKET_def Let_def)

text \<open>
  Claim C1. For a one-byte command and a payload of at most 65535 bytes the encoder
  returns start \<open>0x01\<close>, the command byte, the payload length as two little-endian
  bytes, the payload, the checksum as two little-endian bytes and end \<open>0x17\<close>, where
  the checksum is minus the sum of all bytes from start through the last payload byte,
  modulo 65536.
\<close>

theorem createCmdPacket_layout:
  assumes "length payload \<le> 65535"
  shows "\<exists>len cks. createCmdPacket [c] payload = Inr ([0x01] @ [c] @ len @ payload @ cks @ [0x17])
           \<and> length len = 2 \<and> le_int len = int (length payload)
           \<and> length cks = 2
           \<and> le_int cks = (- sum_list (map uint ([0x01] @ [c] @ len @ payload))) mod 65536"
proof -
  let ?n = "int (length payload)"
  let ?len = "[word_of_int ?n, word_of_int (?n div 256)] :: byte list"
  let ?cs = "calcChecksum_2sComplement_16bit ([0x01, c] @ ?len @ payload)"
  let ?cks = "[word_of_int ?cs, word_of_int (?cs div 256)] :: byte list"
  have "createCmdPacket [c] payload = Inr ([0x01] @ [c] @ ?len @ payload @ ?cks @ [0x17])"
    using createCmdPacket_ok [OF assms, of c] by simp
  moreover have "le_int ?len = ?n" using assms by (intro le_int_H) simp_all
  moreover have "le_int ?cks = ?cs" using calcChecksum_range by (intro le_int_H)
  moreover have "?cs = (- sum_list (map uint ([0x01] @ [c] @ ?len @ payload))) mod 65536"
    by (simp only: calcChecksum_eq append_Cons append_Nil)
  ultimately show ?thesis by (intro exI [of _ ?len] exI [of _ ?cks]) simp
qed

theorem createCmdPacket_layout_witness:
  "length [1, 2, 3, 4 :: byte] \<le> 65535
   \<and> (\<exists>len cks. createCmdPacket [0x38] [1, 2, 3, 4] = Inr ([0x01] @ [0x38] @ len @ [1, 2, 3, 4] @ cks @ [0x17])
           \<and> length len = 2 \<and> le_int len = int (length [1, 2, 3, 4 :: byte])
           \<and> length cks = 2
           \<and> le_int cks = (- sum_list (map uint ([0x01] @ [0x38] @ len @ [1, 2, 3, 4]))) mod 65536)"
proof -
  have h: "length [1, 2, 3, 4 :: byte] \<le> 65535" by simp
  show ?thesis using h createCmdPacket_layout [OF h, of "0x38"] by blast
qed

lemma getResponse_frame:
  assumes "length payload \<le> 65535"
  shows "getResponse ([s, c, word_of_int (int (length payload)), word_of_int (int (length payload) div 256)] @ payload @ [k0, k1, e])
         = (if s \<noteq> 0x01 \<or> e \<noteq> 0x17 then Inl (HostError PacketMalformed)
            else if calcChecksum_2sComplement_16bit ([s, c, word_of_int (int (length payload)), word_of_int (int (length payload) div 256)] @ payload) \<noteq> le_int [k0, k1]
            then Inl (HostError PacketCorrupted) else Inr ([c], payload))"
proof -
  let ?n = "int (length payload)"
  have n: "le_int [word_of_int ?n, word_of_int (?n div 256) :: byte] = ?n"
    using assms by (intro le_int_H) simp_all
  show ?thesis
    using n by (simp add: getResponse_def START_OF_PACKET_def END_OF_PACKET_def Let_def del: le_int.simps)
qed


lemma sum_update: "i < length xs \<Longrightarrow> sum_list (map uint (xs[i := b])) = sum_list (map uint xs) - uint (xs ! i) + uint (b::byte)"
  by (induction xs arbitrary: i) (auto split: nat.splits)

lemma uint_byte_bound: "uint (b::byte) < 256" 
  using uint_bounded[of b] by simp

lemma checksum_flip:
  assumes "i < length xs" "b \<noteq> xs ! i"
  shows "calcChecksum_2sComplement_16bit (xs[i := b]) \<noteq> calcChecksum_2sComplement_16bit xs"
proof
  assume eq: "calcChecksum_2sComplement_16bit (xs[i := b]) = calcChecksum_2sComplement_16bit xs"
  let ?S = "sum_list (map uint xs)"
  let ?d = "uint (xs ! i) - uint b"
  have "(- (?S - uint (xs ! i) + uint b)) mod 65536 = (- ?S) mod 65536"
    using eq assms(1) by (simp add: calcChecksum_eq sum_update)
  then have "65536 dvd (- (?S - uint (xs ! i) + uint b)) - (- ?S)"
    by (simp only: mod_eq_dvd_iff)
  then have dvd: "65536 dvd ?d" by (simp add: algebra_simps)
  have "?d \<noteq> 0" using assms(2) by (auto dest: word_uint_eqI)
  then have "\<bar>65536\<bar> \<le> \<bar>?d\<bar>" using dvd by (intro dvd_imp_le_int)
  moreover have "\<bar>?d\<bar> < 256"
    using uint_byte_bound [of b] uint_byte_bound [of "xs ! i"] uint_ge_0 [of b] uint_ge_0 [of "xs ! i"] by linarith
  ultimately show False by simp
qed

lemma getResponse_decomp:
  "getResponse ([s, c, l0, l1] @ payload @ [k0, k1, e]) =
     (if le_int [l0, l1] \<noteq> int (length payload) then Inl (HostError PacketMalformed)
      else if s \<noteq> 0x01 \<or> e \<noteq> 0x17 then Inl (HostError PacketMalformed)
      else if calcChecksum_2sComplement_16bit ([s, c, l0, l1] @ payload) \<noteq> le_int [k0, k1]
      then Inl (HostError PacketCorrupted) else Inr ([c], payload))"
  by (simp add: getResponse_def START_OF_PACKET_def END_OF_PACKET_def Let_def del: le_int.simps)

lemma getResponse_short:
  assumes "length packet < 4"
  shows "getResponse packet = Inl (HostError PacketMalformed)"
proof -
  have "length (take 4 packet) < 4" using assms by simp
  then show ?thesis
    by (auto simp: getResponse_def split: list.splits)
qed

lemma length4_conv: "length ys = 4 \<Longrightarrow> \<exists>a b c d. ys = [a, b, c, d]"
  by (auto simp: length_Suc_conv eval_nat_numeral)

lemma length3_conv: "length ys = 3 \<Longrightarrow> \<exists>a b c. ys = [a, b, c]"
  by (auto simp: length_Suc_conv eval_nat_numeral)

lemma list4_split:
  assumes "4 \<le> length xs"
  obtains s c l0 l1 rest where "xs = [s, c, l0, l1] @ rest"
proof -
  have "xs = take 4 xs @ drop 4 xs" by simp
  moreover have "length (take 4 xs) = 4" using assms by simp
  then obtain s c l0 l1 where "take 4 xs = [s, c, l0, l1]"
    using length4_conv by blast
  ultimately show ?thesis using that by metis
qed

lemma list3_split_end:
  assumes "length xs = n + 3"
  obtains payload k0 k1 e where "xs = payload @ [k0, k1, e]" "length payload = n"
proof -
  have "xs = take n xs @ drop n xs" by simp
  moreover have "length (drop n xs) = 3" using assms by simp
  then obtain k0 k1 e where "drop n xs = [k0, k1, e]"
    using length3_conv by blast
  moreover have "length (take n xs) = n" using assms by simp
  ultimately show ?thesis using that by metis
qed

lemma getResponse_host_error:
  "(\<exists>r. getResponse packet = Inr r) \<or> (\<exists>m. getResponse packet = Inl (HostError m))"
  by (auto simp: getResponse_def Let_def split: list.splits)

text \<open>
  Claim C2. For a one-byte command and a payload of at most 65535 bytes, encoding
  succeeds and decoding the encoded bytes returns the command byte in the status
  position together with the original payload; the status check accepts it exactly
  when that byte is \<open>0x00\<close>.
\<close>

theorem getResponse_createCmdPacket:
  assumes "length cmd = 1" "length payload \<le> 65535"
  shows "\<exists>packet. createCmdPacket cmd payload = Inr packet
           \<and> getResponse packet = Inr (cmd, payload)
           \<and> (checkStatusCode (fst (cmd, payload)) = Inr ()) = (cmd = [0x00])"
proof -
  obtain c where c: "cmd = [c]" using assms(1) by (cases cmd) auto
  let ?n = "int (length payload)"
  let ?xs = "[0x01, c, word_of_int ?n, word_of_int (?n div 256)] @ payload"
  let ?cs = "calcChecksum_2sComplement_16bit ?xs"
  have enc: "createCmdPacket cmd payload = Inr (?xs @ [word_of_int ?cs, word_of_int (?cs div 256), 0x17])"
    using createCmdPacket_ok [OF assms(2), of c] c by simp
  have n: "le_int [word_of_int ?n, word_of_int (?n div 256) :: byte] = ?n"
    using assms(2) by (intro le_int_H) simp_all
  have k: "le_int [word_of_int ?cs, word_of_int (?cs div 256) :: byte] = ?cs"
    using calcChecksum_range by (intro le_int_H)
  have dec: "getResponse (?xs @ [word_of_int ?cs, word_of_int (?cs div 256), 0x17]) = Inr (cmd, payload)"
    using getResponse_decomp [of 1 c "word_of_int ?n" "word_of_int (?n div 256)" payload
        "word_of_int ?cs" "word_of_int (?cs div 256)" "0x17"] n k c
    by (simp del: le_int.simps)
  have "(checkStatusCode cmd = Inr ()) = (cmd = [0x00])"
    by (simp add: c checkStatusCode_def DFU_STATUS_CODE_def split: option.splits)
  then show ?thesis using enc dec by simp
qed

theorem getResponse_createCmdPacket_witness:
  "length [0x00 :: byte] = 1 \<and> length [1, 2, 3, 4 :: byte] \<le> 65535
   \<and> (\<exists>packet. createCmdPacket [0x00] [1, 2, 3, 4] = Inr packet
           \<and> getResponse packet = Inr ([0x00], [1, 2, 3, 4])
           \<and> (checkStatusCode (fst ([0x00 :: byte], [1, 2, 3, 4 :: byte])) = Inr ()) = ([0x00 :: byte] = [0x00]))"
proof -
  have h1: "length [0x00 :: byte] = 1" by simp
  have h2: "length [1, 2, 3, 4 :: byte] \<le> 65535" by simp
  show ?thesis using h1 h2 getResponse_createCmdPacket [OF h1 h2] by blast
qed


lemma getResponse_bad_checksum:
  "calcChecksum_2sComplement_16bit ([s, c, l0, l1] @ payload) \<noteq> le_int [k0, k1]
   \<Longrightarrow> \<exists>m. getResponse ([s, c, l0, l1] @ payload @ [k0, k1, e]) = Inl (HostError m)"
  unfolding getResponse_decomp by (auto simp del: le_int.simps)

lemma getResponse_flip:
  assumes "createCmdPacket cmd payload = Inr packet" "i < length packet - 3" "b \<noteq> packet ! i"
  shows "\<exists>m. getResponse (packet[i := b]) = Inl (HostError m)"
proof -
  have len: "length cmd = 1" "length payload \<le> 65535"
    using assms(1) by (auto simp: createCmdPacket_def pack_H_def split: if_splits)
  then obtain c where c: "cmd = [c]" by (cases cmd) auto
  let ?n = "int (length payload)"
  let ?xs = "[0x01, c, word_of_int ?n, word_of_int (?n div 256)] @ payload"
  let ?cs = "calcChecksum_2sComplement_16bit ?xs"
  let ?tl = "[word_of_int ?cs, word_of_int (?cs div 256), 0x17] :: byte list"
  have packet: "packet = ?xs @ ?tl"
    using createCmdPacket_ok [OF len(2), of c] c assms(1) by simp
  have i: "i < length ?xs" using assms(2) packet by simp
  have upd: "packet[i := b] = ?xs[i := b] @ ?tl"
    using i by (simp only: packet list_update_append1)
  have "packet ! i = ?xs ! i" using i by (simp only: packet nth_append if_True)
  then have neq: "b \<noteq> ?xs ! i" using assms(3) by simp
  have k: "le_int [word_of_int ?cs, word_of_int (?cs div 256) :: byte] = ?cs"
    using calcChecksum_range by (intro le_int_H)
  have cs: "calcChecksum_2sComplement_16bit (?xs[i := b]) \<noteq> ?cs"
    using checksum_flip [OF i neq] .
  have "4 \<le> length ?xs" by simp
  then have "4 \<le> length (?xs[i := b])" by (simp only: length_list_update)
  then obtain s' c' l0 l1 payload' where xs': "?xs[i := b] = [s', c', l0, l1] @ payload'"
    by (rule list4_split)
  have "calcChecksum_2sComplement_16bit ([s', c', l0, l1] @ payload')
          \<noteq> le_int [word_of_int ?cs, word_of_int (?cs div 256) :: byte]"
    using cs unfolding k xs' .
  then have "\<exists>m. getResponse ([s', c', l0, l1] @ payload' @ ?tl) = Inl (HostError m)"
    by (rule getResponse_bad_checksum)
  moreover have "packet[i := b] = [s', c', l0, l1] @ payload' @ ?tl"
    unfolding upd xs' by (simp only: append_assoc)
  ultimately show ?thesis by (simp only:)
qed

lemma getResponse_accepts_iff:
  "(\<exists>r. getResponse packet = Inr r) \<longleftrightarrow>
     (\<exists>c len payload cks. packet = [0x01] @ [c] @ len @ payload @ cks @ [0x17]
        \<and> length len = 2 \<and> le_int len = int (length payload) \<and> length cks = 2
        \<and> le_int cks = calcChecksum_2sComplement_16bit (take (length packet - 3) packet))"
  (is "?L \<longleftrightarrow> ?R")
proof
  assume ?L
  then obtain r where r: "getResponse packet = Inr r" ..
  have "\<not> length packet < 4" using r getResponse_short [of packet] by auto
  then obtain s c l0 l1 rest where p: "packet = [s, c, l0, l1] @ rest"
    using list4_split [of packet] by (metis not_less)
  have lr: "int (length rest) = le_int [l0, l1] + 3"
    using r unfolding p by (simp add: getResponse_def Let_def del: le_int.simps split: if_splits)
  have "0 \<le> le_int [l0, l1]" by simp
  then have "length rest = nat (le_int [l0, l1]) + 3" using lr by linarith
  then obtain payload k0 k1 e where rest: "rest = payload @ [k0, k1, e]"
      and lp: "length payload = nat (le_int [l0, l1])"
    by (rule list3_split_end)
  have q: "packet = [s, c, l0, l1] @ payload @ [k0, k1, e]" by (simp add: p rest)
  have ok: "le_int [l0, l1] = int (length payload)" "s = 0x01" "e = 0x17"
      "calcChecksum_2sComplement_16bit ([s, c, l0, l1] @ payload) = le_int [k0, k1]"
    using r unfolding q getResponse_decomp by (simp_all del: le_int.simps split: if_splits)
  have tk: "take (length packet - 3) packet = [s, c, l0, l1] @ payload" by (simp add: q)
  show ?R
    apply (rule exI [of _ c], rule exI [of _ "[l0, l1]"], rule exI [of _ payload], rule exI [of _ "[k0, k1]"])
    using ok tk q by (simp del: le_int.simps)
next
  assume ?R
  then obtain c len payload cks where q: "packet = [0x01] @ [c] @ len @ payload @ cks @ [0x17]"
    and l: "length len = 2" "le_int len = int (length payload)" "length cks = 2"
    and k: "le_int cks = calcChecksum_2sComplement_16bit (take (length packet - 3) packet)"
    by blast
  obtain l0 l1 where len: "len = [l0, l1]" using l(1) by (auto simp: length_Suc_conv eval_nat_numeral)
  obtain k0 k1 where cks: "cks = [k0, k1]" using l(3) by (auto simp: length_Suc_conv eval_nat_numeral)
  have q': "packet = [0x01, c, l0, l1] @ payload @ [k0, k1, 0x17]" by (simp add: q len cks)
  have tk: "take (length packet - 3) packet = [0x01, c, l0, l1] @ payload" by (simp add: q')
  have "getResponse packet = Inr ([c], payload)"
    using l(2) k unfolding tk unfolding q' getResponse_decomp len cks by (simp del: le_int.simps)
  then show ?L by blast
qed

text \<open>
  Claim C3. Changing any byte of an encoded packet before its trailing three bytes to a
  different value makes the decoder fail with a \<open>HostError\<close>. In general the decoder
  accepts a frame exactly when it has the start marker, a length field equal to the
  number of payload bytes, a checksum field equal to the checksum of every byte except
  the trailing three, and the end marker; every other frame is rejected with a
  \<open>HostError\<close>.
\<close>

theorem getResponse_detects_corruption:
  assumes "createCmdPacket cmd payload = Inr packet" "i < length packet - 3" "b \<noteq> packet ! i"
  shows "(\<exists>m. getResponse (packet[i := b]) = Inl (HostError m))
       \<and> ((\<exists>r. getResponse frame = Inr r) \<longleftrightarrow>
           (\<exists>c len body cks. frame = [0x01] @ [c] @ len @ body @ cks @ [0x17]
              \<and> length len = 2 \<and> le_int len = int (length body) \<and> length cks = 2
              \<and> le_int cks = calcChecksum_2sComplement_16bit (take (length frame - 3) frame)))
       \<and> ((\<exists>r. getResponse frame = Inr r) \<or> (\<exists>m. getResponse frame = Inl (HostError m)))"
  using getResponse_flip [OF assms] getResponse_accepts_iff [of frame] getResponse_host_error [of frame]
  by blast

theorem getResponse_detects_corruption_witness:
  "createCmdPacket [0x38] [1, 2, 3, 4] = Inr [1, 56, 4, 0, 1, 2, 3, 4, 185, 255, 23]
   \<and> (5::nat) < length [1, 56, 4, 0, 1, 2, 3, 4, 185, 255, 23 :: byte] - 3
   \<and> (0xFF :: byte) \<noteq> [1, 56, 4, 0, 1, 2, 3, 4, 185, 255, 23] ! 5
   \<and> (\<exists>m. getResponse [1, 56, 4, 0, 1, 0xFF, 3, 4, 185, 255, 23] = Inl (HostError m))"
proof -
  have a: "createCmdPacket [0x38] [1, 2, 3, 4] = Inr [1, 56, 4, 0, 1, 2, 3, 4, 185, 255, 23]"
    by (simp add: createCmdPacket_def pack_H_def calcChecksum_2sComplement_16bit_def START_OF_PACKET_def END_OF_PACKET_def)
  have b: "(5::nat) < length [1, 56, 4, 0, 1, 2, 3, 4, 185, 255, 23 :: byte] - 3" by simp
  have c: "(0xFF :: byte) \<noteq> [1, 56, 4, 0, 1, 2, 3, 4, 185, 255, 23] ! 5" by simp
  show ?thesis using a b c getResponse_detects_corruption [OF a b c] by simp
qed

text \<open>
  Claim C4. The status check accepts \<open>0x00\<close>, raises the eight named errors for the
  codes \<open>0x02, 0x03, 0x04, 0x05, 0x08, 0x0A, 0x0B, 0x0F\<close> in that order, and raises
  \<open>UnexpectedError\<close>, which is none of the eight, for every other byte.
\<close>

theorem checkStatusCode_table:
  "checkStatusCode [b] =
     (if b = 0x00 then Inr ()
      else if b = 0x02 then Inl DFUErrorVerify
      else if b = 0x03 then Inl DFUErrorLength
      else if b = 0x04 then Inl DFUErrorData
      else if b = 0x05 then Inl DFUErrorCmd
      else if b = 0x08 then Inl DFUErrorChecksum
      else if b = 0x0A then Inl DFUErrorRow
      else if b = 0x0B then Inl DFUErrorRowAccess
      else if b = 0x0F then Inl DFUErrorUnknown
      else Inl UnexpectedError)
   \<and> UnexpectedError \<notin> {DFUErrorVerify, DFUErrorLength, DFUErrorData, DFUErrorCmd,
        DFUErrorChecksum, DFUErrorRow, DFUErrorRowAccess, DFUErrorUnknown}"
  by (simp add: checkStatusCode_def DFU_STATUS_CODE_def)

theorem checkStatusCode_table_witness:
  "checkStatusCode [0x0A] = Inl DFUErrorRow \<and> checkStatusCode [0x01] = Inl UnexpectedError"
  using checkStatusCode_table [of "0x0A"] checkStatusCode_table [of "0x01"] by simp

section \<open>Properties of the image parser\<close>

lemma le_int_nonneg: "0 \<le> le_int bs"
  by (induction bs) simp_all

lemma le_int_bound: "le_int bs < 256 ^ length bs"
proof (induction bs)
  case Nil
  show ?case by simp
next
  case (Cons b bs)
  have "uint b \<le> 255" using uint_byte_bound [of b] by simp
  moreover have "le_int bs + 1 \<le> 256 ^ length bs" using Cons by simp
  then have "256 * (le_int bs + 1) \<le> 256 * 256 ^ length bs" by (simp only: mult_left_mono)
  ultimately show ?case by (simp add: algebra_simps)
qed

lemma getNextRow_eof: "app_file app = [] \<Longrightarrow> getNextRow app = (Inl StopIteration, app)"
  by (simp add: getNextRow_def)

lemma getNextRow_good:
  assumes "app_file app = (CHR '':'' # t) # rest" "fromhex (str_strip t) = Inr bs" "4 \<le> length bs"
  shows "getNextRow app =
           (Inr (le_int (take 4 bs), drop 4 bs), app\<lparr>app_file := rest, currRow := currRow app + 1\<rparr>)"
  using assms by (simp add: getNextRow_def Let_def)

lemma getNextRow_no_colon:
  assumes "app_file app = (c # t) # rest" "c \<noteq> CHR '':''"
  shows "getNextRow app = (Inl InvalidApplicationFile, app\<lparr>app_file := rest\<rparr>)"
  using assms by (simp add: getNextRow_def Let_def)

lemma readRows_good:
  assumes "\<forall>(t, bs) \<in> set rs. fromhex (str_strip t) = Inr bs \<and> 4 \<le> length bs"
    and "app_file app = map (\<lambda>(t, bs). CHR '':'' # t) rs @ tail"
  shows "readRows (length rs) app =
           (Inr (map (\<lambda>(t, bs). (le_int (take 4 bs), drop 4 bs)) rs),
            app\<lparr>app_file := tail, currRow := currRow app + int (length rs)\<rparr>)"
  using assms
proof (induction rs arbitrary: app)
  case Nil
  then show ?case by simp
next
  case (Cons r rs)
  obtain t bs where r: "r = (t, bs)" by (cases r)
  let ?app1 = "app\<lparr>app_file := map (\<lambda>(t, bs). CHR '':'' # t) rs @ tail, currRow := currRow app + 1\<rparr>"
  have ok: "fromhex (str_strip t) = Inr bs" "4 \<le> length bs" using Cons.prems(1) r by auto
  have fl: "app_file app = (CHR '':'' # t) # (map (\<lambda>(t, bs). CHR '':'' # t) rs @ tail)"
    using Cons.prems(2) r by simp
  have step: "getNextRow app = (Inr (le_int (take 4 bs), drop 4 bs), ?app1)"
    using getNextRow_good [OF fl ok] .
  have rest: "readRows (length rs) ?app1 =
           (Inr (map (\<lambda>(t, bs). (le_int (take 4 bs), drop 4 bs)) rs),
            ?app1\<lparr>app_file := tail, currRow := currRow ?app1 + int (length rs)\<rparr>)"
    using Cons.prems(1) by (intro Cons.IH) simp_all
  show ?case using step rest by (simp add: r)
qed

lemma Application_init_Inr:
  assumes "Application_init pyint path (Some ls) = Inr app"
  obtains hdr info rest where "ls = hdr # info # rest" "app_file app = rest"
    "numRows app = int (length rest)" "currRow app = 0"
    "0 \<le> productID app" "productID app \<le> 4294967295" "0 \<le> appID app" "appID app \<le> 255"
proof -
  from assms obtain app1 app3 where
    h: "getHeader \<lparr>app_file = ls, numRows = int (length ls), currRow = 0,
                          fileVersion = 0, siliconID = 0, siliconRevision = 0,
                          checksumType = 0, appID = 0, productID = 0,
                          startAddr = 0, app_length = 0\<rparr> = Inr app1"
    and i: "getAppInfo pyint (app1\<lparr>numRows := numRows app1 - 1\<rparr>) = Inr app3"
    and a: "app = app3\<lparr>numRows := numRows app3 - 1, currRow := 0\<rparr>"
    by (auto simp: Application_init_def Let_def split: if_splits sum.splits)
  from h obtain hdr ls1 header where
    ls: "ls = hdr # ls1" and hx: "fromhex (str_strip hdr) = Inr header" and len: "length header = 12"
    and app1: "app_file app1 = ls1" "numRows app1 = int (length ls)"
      "productID app1 = le_int (take 4 (drop 8 header))" "appID app1 = le_int (take 1 (drop 7 header))"
    by (auto simp: getHeader_def split: list.splits sum.splits if_splits)
  from i app1 obtain info rest where
    ls1: "ls1 = info # rest"
    and app3: "app_file app3 = rest" "numRows app3 = numRows app1 - 1"
      "productID app3 = productID app1" "appID app3 = appID app1"
    by (auto simp: getAppInfo_def split: list.splits sum.splits if_splits option.splits)
  have p: "0 \<le> productID app" "productID app \<le> 4294967295"
    using le_int_nonneg [of "take 4 (drop 8 header)"] le_int_bound [of "take 4 (drop 8 header)"] len
    by (simp_all add: a app3 app1)
  have q: "0 \<le> appID app" "appID app \<le> 255"
    using le_int_nonneg [of "take 1 (drop 7 header)"] le_int_bound [of "take 1 (drop 7 header)"] len
    by (simp_all add: a app3 app1)
  show ?thesis
    using that [of hdr info rest] p q by (simp add: ls ls1 a app3 app1)
qed

text \<open>
  Claim C6, as the code has it. For an image that opens and whose data lines each are
  \<open>:\<close> followed by the hex text of at least four bytes, \<open>numRows\<close> is the number of data
  lines, reading \<open>numRows\<close> rows yields for each line, in file order, the little-endian
  value of its first four bytes and the remaining bytes, the row counter has advanced by
  that number, and the next read raises \<open>StopIteration\<close>. The line \<open>:0000100008AB\<close>
  yields the address \<open>0x00100000\<close> with the data \<open>08 AB\<close>, and the read advances the
  row counter by one.
\<close>

theorem getNextRow_sequence:
  assumes "Application_init pyint path (Some (hdr # info # map (\<lambda>(t, bs). CHR '':'' # t) rs)) = Inr app"
    and "\<forall>(t, bs) \<in> set rs. fromhex (str_strip t) = Inr bs \<and> 4 \<le> length bs"
  shows "numRows app = int (length rs)
       \<and> (\<exists>app'. readRows (nat (numRows app)) app =
              (Inr (map (\<lambda>(t, bs). (le_int (take 4 bs), drop 4 bs)) rs), app')
            \<and> currRow app' = currRow app + numRows app
            \<and> getNextRow app' = (Inl StopIteration, app'))
       \<and> (\<forall>a more. app_file a = '':0000100008AB'' # more \<longrightarrow>
              getNextRow a = (Inr (0x00100000, [0x08, 0xAB]),
                              a\<lparr>app_file := more, currRow := currRow a + 1\<rparr>))"
proof -
  obtain h i rest where e: "hdr # info # map (\<lambda>(t, bs). CHR '':'' # t) rs = h # i # rest"
    and f: "app_file app = rest" and n: "numRows app = int (length rest)"
    using Application_init_Inr [OF assms(1)] by metis
  have r: "rest = map (\<lambda>(t, bs). CHR '':'' # t) rs" using e by simp
  have fl: "app_file app = map (\<lambda>(t, bs). CHR '':'' # t) rs @ []" using f r by simp
  have nr: "numRows app = int (length rs)" using n r by simp
  let ?app' = "app\<lparr>app_file := [], currRow := currRow app + int (length rs)\<rparr>"
  have "readRows (length rs) app =
          (Inr (map (\<lambda>(t, bs). (le_int (take 4 bs), drop 4 bs)) rs), ?app')"
    using readRows_good [OF assms(2) fl] .
  moreover have "getNextRow ?app' = (Inl StopIteration, ?app')"
    by (rule getNextRow_eof) simp
  ultimately have rd: "\<exists>app'. readRows (nat (numRows app)) app =
              (Inr (map (\<lambda>(t, bs). (le_int (take 4 bs), drop 4 bs)) rs), app')
            \<and> currRow app' = currRow app + numRows app
            \<and> getNextRow app' = (Inl StopIteration, app')"
    using nr by (intro exI [of _ ?app']) simp
  have hx: "fromhex (str_strip ''0000100008AB'') = Inr [0x00, 0x00, 0x10, 0x00, 0x08, 0xAB]"
    by (simp add: str_strip_def isspace_def hexspace_def hexval_def)
  have ex: "getNextRow a = (Inr (0x00100000, [0x08, 0xAB]),
                              a\<lparr>app_file := more, currRow := currRow a + 1\<rparr>)"
    if "app_file a = '':0000100008AB'' # more" for a more
    using getNextRow_good [OF that hx] by simp
  show ?thesis using nr rd ex by blast
qed

theorem getNextRow_sequence_witness:
  "Application_init (\<lambda>s. if s = ''0x10000000'' then Some 268435456 else if s = ''0x1234'' then Some 4660 else None)
       ''fw.cyacd2''
       (Some (''010203040506070809101112\<newline>'' # ''@APPINFO:0x10000000,0x1234\<newline>''
               # map (\<lambda>(t, bs). CHR '':'' # t)
                   [(''0000100008AB\<newline>'', [0x00, 0x00, 0x10, 0x00, 0x08, 0xAB]),
                    (''00021000FF\<newline>'', [0x00, 0x02, 0x10, 0x00, 0xFF])]))
     = Inr \<lparr>app_file = ['':0000100008AB\<newline>'', '':00021000FF\<newline>''], numRows = 2, currRow = 0,
            fileVersion = 1, siliconID = 84148994, siliconRevision = 6, checksumType = 7,
            appID = 8, productID = 303108105, startAddr = 268435456, app_length = 4660\<rparr>
   \<and> fromhex (str_strip ''0000100008AB\<newline>'') = Inr [0x00, 0x00, 0x10, 0x00, 0x08, 0xAB]
   \<and> 4 \<le> length [0x00, 0x00, 0x10, 0x00, 0x08, 0xAB :: byte]
   \<and> fromhex (str_strip ''00021000FF\<newline>'') = Inr [0x00, 0x02, 0x10, 0x00, 0xFF]
   \<and> 4 \<le> length [0x00, 0x02, 0x10, 0x00, 0xFF :: byte]
   \<and> (\<exists>app'. readRows 2
              \<lparr>app_file = ['':0000100008AB\<newline>'', '':00021000FF\<newline>''], numRows = 2, currRow = 0,
                 fileVersion = 1, siliconID = 84148994, siliconRevision = 6, checksumType = 7,
                 appID = 8, productID = 303108105, startAddr = 268435456, app_length = 4660\<rparr>
            = (Inr [(0x00100000, [0x08, 0xAB]), (0x00100200, [0xFF])], app')
          \<and> currRow app' = 2
          \<and> getNextRow app' = (Inl StopIteration, app'))"
proof -
  let ?f = "\<lambda>s. if s = ''0x10000000'' then Some (268435456::int) else if s = ''0x1234'' then Some 4660 else None"
  let ?rs = "[(''0000100008AB\<newline>'', [0x00, 0x00, 0x10, 0x00, 0x08, 0xAB :: byte]),
              (''00021000FF\<newline>'', [0x00, 0x02, 0x10, 0x00, 0xFF])]"
  let ?app = "\<lparr>app_file = ['':0000100008AB\<newline>'', '':00021000FF\<newline>''], numRows = 2, currRow = 0,
            fileVersion = 1, siliconID = 84148994, siliconRevision = 6, checksumType = 7,
            appID = 8, productID = 303108105, startAddr = 268435456, app_length = 4660\<rparr>"
  have a: "Application_init ?f ''fw.cyacd2''
       (Some (''010203040506070809101112\<newline>'' # ''@APPINFO:0x10000000,0x1234\<newline>''
               # map (\<lambda>(t, bs). CHR '':'' # t) ?rs)) = Inr ?app"
    by (simp add: Application_init_def endswith_def getHeader_def getAppInfo_def str_strip_def
          isspace_def hexspace_def hexval_def Let_def)
  have b: "\<forall>(t, bs) \<in> set ?rs. fromhex (str_strip t) = Inr bs \<and> 4 \<le> length bs"
    by (simp add: str_strip_def isspace_def hexspace_def hexval_def)
  show ?thesis
    using a b getNextRow_sequence [OF a b] by simp
qed

theorem getNextRow_example_counterexample:
  "fst (getNextRow \<lparr>app_file = ['':0000100008AB''], numRows = 1, currRow = 0,
            fileVersion = 0, siliconID = 0, siliconRevision = 0, checksumType = 0,
            appID = 0, productID = 0, startAddr = 0, app_length = 0\<rparr>)
     = Inr (0x00100000, [0x08, 0xAB])
   \<and> fst (getNextRow \<lparr>app_file = ['':0000100008AB''], numRows = 1, currRow = 0,
            fileVersion = 0, siliconID = 0, siliconRevision = 0, checksumType = 0,
            appID = 0, productID = 0, startAddr = 0, app_length = 0\<rparr>)
     \<noteq> Inr (0x00001000, [0x08, 0xAB])"
  by (simp add: getNextRow_def str_strip_def isspace_def hexspace_def hexval_def Let_def)

lemma str_split_nonempty: "str_split sep s \<noteq> []"
  by (induction s) (auto split: list.splits)

text \<open>
  Claim C7, as the code has it. Opening fails with \<open>InvalidFileType\<close> whenever the path
  does not end in \<open>.cyacd2\<close>. With such a path and an existing file, it fails with
  \<open>InvalidApplicationFile\<close> when the first line hex-decodes to other than 12 bytes, and
  when the first line hex-decodes to 12 bytes and the text of the second line before
  its first \<open>:\<close> is not \<open>@APPINFO\<close>. When the first or the second line is absent,
  opening fails with \<open>StopIteration\<close>.
\<close>

theorem Application_init_errors:
  "(\<not> endswith path ''.cyacd2'' \<longrightarrow> Application_init pyint path contents = Inl InvalidFileType)
   \<and> (endswith path ''.cyacd2'' \<and> fromhex (str_strip hdr) = Inr bs \<and> length bs \<noteq> 12 \<longrightarrow>
        Application_init pyint path (Some (hdr # ls)) = Inl InvalidApplicationFile)
   \<and> (endswith path ''.cyacd2'' \<and> fromhex (str_strip hdr) = Inr bs \<and> length bs = 12
        \<and> hd (str_split CHR '':'' (str_strip info)) \<noteq> ''@APPINFO'' \<longrightarrow>
        Application_init pyint path (Some (hdr # info # ls)) = Inl InvalidApplicationFile)
   \<and> (endswith path ''.cyacd2'' \<longrightarrow> Application_init pyint path (Some []) = Inl StopIteration)
   \<and> (endswith path ''.cyacd2'' \<and> fromhex (str_strip hdr) = Inr bs \<and> length bs = 12 \<longrightarrow>
        Application_init pyint path (Some [hdr]) = Inl StopIteration)"
proof (intro conjI impI)
  assume "\<not> endswith path ''.cyacd2''"
  then show "Application_init pyint path contents = Inl InvalidFileType"
    by (simp add: Application_init_def)
next
  assume "endswith path ''.cyacd2'' \<and> fromhex (str_strip hdr) = Inr bs \<and> length bs \<noteq> 12"
  then show "Application_init pyint path (Some (hdr # ls)) = Inl InvalidApplicationFile"
    by (simp add: Application_init_def getHeader_def)
next
  assume a: "endswith path ''.cyacd2'' \<and> fromhex (str_strip hdr) = Inr bs \<and> length bs = 12
        \<and> hd (str_split CHR '':'' (str_strip info)) \<noteq> ''@APPINFO''"
  obtain label pieces where s: "str_split CHR '':'' (str_strip info) = label # pieces"
    using str_split_nonempty [of "CHR '':''" "str_strip info"] by (cases "str_split CHR '':'' (str_strip info)") auto
  then have "label \<noteq> ''@APPINFO''" using a by simp
  then show "Application_init pyint path (Some (hdr # info # ls)) = Inl InvalidApplicationFile"
    using a s by (simp add: Application_init_def getHeader_def getAppInfo_def)
next
  assume "endswith path ''.cyacd2''"
  then show "Application_init pyint path (Some []) = Inl StopIteration"
    by (simp add: Application_init_def getHeader_def)
next
  assume "endswith path ''.cyacd2'' \<and> fromhex (str_strip hdr) = Inr bs \<and> length bs = 12"
  then show "Application_init pyint path (Some [hdr]) = Inl StopIteration"
    by (simp add: Application_init_def getHeader_def getAppInfo_def)
qed

theorem Application_init_errors_witness:
  "Application_init (\<lambda>s. None) ''fw.hex'' None = Inl InvalidFileType
   \<and> Application_init (\<lambda>s. None) ''fw.cyacd2'' (Some [''0102030405060708091011\<newline>'', ''@APPINFO:0x0,0x0\<newline>''])
       = Inl InvalidApplicationFile
   \<and> Application_init (\<lambda>s. None) ''fw.cyacd2'' (Some [''010203040506070809101112\<newline>'', ''APPINFO:0x0,0x0\<newline>''])
       = Inl InvalidApplicationFile
   \<and> Application_init (\<lambda>s. None) ''fw.cyacd2'' (Some []) = Inl StopIteration
   \<and> Application_init (\<lambda>s. None) ''fw.cyacd2'' (Some [''010203040506070809101112\<newline>'']) = Inl StopIteration"
proof -
  have e: "endswith ''fw.cyacd2'' ''.cyacd2''" "\<not> endswith ''fw.hex'' ''.cyacd2''"
    by (simp_all add: endswith_def)
  have h11: "fromhex (str_strip ''0102030405060708091011\<newline>'') = Inr [1, 2, 3, 4, 5, 6, 7, 8, 9, 16, 17]"
    by (simp add: str_strip_def isspace_def hexspace_def hexval_def)
  have h12: "fromhex (str_strip ''010203040506070809101112\<newline>'') = Inr [1, 2, 3, 4, 5, 6, 7, 8, 9, 16, 17, 18]"
    by (simp add: str_strip_def isspace_def hexspace_def hexval_def)
  have lab: "hd (str_split CHR '':'' (str_strip ''APPINFO:0x0,0x0\<newline>'')) \<noteq> ''@APPINFO''"
    by (simp add: str_strip_def isspace_def)
  show ?thesis
    using e h11 h12 lab
      Application_init_errors [where path = "''fw.hex''" and pyint = "\<lambda>s. None" and contents = None]
      Application_init_errors [where path = "''fw.cyacd2''" and pyint = "\<lambda>s. None"
        and hdr = "''0102030405060708091011\<newline>''" and bs = "[1, 2, 3, 4, 5, 6, 7, 8, 9, 16, 17]"
        and ls = "[''@APPINFO:0x0,0x0\<newline>'']"]
      Application_init_errors [where path = "''fw.cyacd2''" and pyint = "\<lambda>s. None"
        and hdr = "''010203040506070809101112\<newline>''" and bs = "[1, 2, 3, 4, 5, 6, 7, 8, 9, 16, 17, 18]"
        and ls = "[]" and info = "''APPINFO:0x0,0x0\<newline>''"]
    by simp
qed

theorem Application_init_absent_line_counterexample:
  "Application_init (\<lambda>s. None) ''fw.cyacd2'' (Some []) = Inl StopIteration
   \<and> Application_init (\<lambda>s. None) ''fw.cyacd2'' (Some []) \<noteq> Inl InvalidApplicationFile"
  by (simp add: Application_init_def endswith_def getHeader_def)

section \<open>Properties of the protocol engine\<close>

lemma createCmdPacket_packet_of:
  assumes "length cmd = 1" "length payload \<le> 65535"
  shows "createCmdPacket cmd payload = Inr (packet_of cmd payload)"
proof -
  obtain c where "cmd = [c]" using assms(1) by (cases cmd) auto
  then show ?thesis
    using createCmdPacket_ok [OF assms(2), of c] by (simp add: packet_of_def)
qed

lemma sendCommandGetResponse_ok:
  assumes "length cmd = 1" "length payload \<le> 65535"
    and "pending l = Some (cmdHandle P, d) # rest" "success_reply d resp"
  shows "sendCommandGetResponse P cmd payload l =
           (Inr resp, l\<lparr>writes := writes l @ slices 20 (packet_of cmd payload), pending := rest,
                         dhandle := Some (cmdHandle P), ddata := Some d\<rparr>)"
proof -
  have st: "checkStatusCode [0x00] = Inr ()"
    by (simp add: checkStatusCode_def DFU_STATUS_CODE_def)
  show ?thesis
    using assms(3,4) st
    by (simp add: sendCommandGetResponse_def createCmdPacket_packet_of [OF assms(1,2)]
          sendPacket_def waitForResponse_def success_reply_def Let_def)
qed

lemma le_int_I:
  assumes "0 \<le> v" "v \<le> 4294967295"
  shows "le_int [word_of_int v, word_of_int (v div 256), word_of_int (v div 65536),
                 word_of_int (v div 16777216) :: byte] = v"
proof -
  define a where "a = v div 256"
  define b where "b = a div 256"
  define c where "c = b div 256"
  have b: "v div 65536 = b"
    using zdiv_zmult2_eq [of 256 v 256] by (simp add: a_def b_def)
  have c: "v div 16777216 = c"
    using zdiv_zmult2_eq [of 65536 v 256] b by (simp add: c_def)
  have "v div 16777216 < 256" using assms by simp
  moreover have "0 \<le> v div 16777216" using assms by simp
  ultimately have cm: "c mod 256 = c" using c by simp
  have "v = v mod 256 + 256 * a" by (simp add: a_def)
  moreover have "a = a mod 256 + 256 * b" by (simp add: b_def)
  moreover have "b = b mod 256 + 256 * c" by (simp add: c_def)
  ultimately have "v = v mod 256 + 256 * (a mod 256 + 256 * (b mod 256 + 256 * c))" by simp
  then show ?thesis
    using cm by (simp add: uint_word_of_int take_bit_eq_mod b c flip: a_def)
qed

lemma pack_I_ok:
  assumes "0 \<le> v" "v \<le> 4294967295"
  shows "\<exists>bs. pack_I v = Inr bs \<and> length bs = 4 \<and> le_int bs = v"
  using assms le_int_I [OF assms] by (simp add: pack_I_def del: le_int.simps)

lemma pack_B_ok:
  assumes "0 \<le> v" "v \<le> 255"
  shows "\<exists>bs. pack_B v = Inr bs \<and> length bs = 1 \<and> le_int bs = v"
  using assms by (simp add: pack_B_def uint_word_of_int take_bit_eq_mod)

lemma pack_II_ok:
  assumes "0 \<le> a" "a \<le> 4294967295" "0 \<le> b" "b \<le> 4294967295"
  shows "\<exists>bs. pack_II a b = Inr bs \<and> length bs = 8 \<and> le_int (take 4 bs) = a \<and> le_int (drop 4 bs) = b"
proof -
  obtain x where x: "pack_I a = Inr x" "length x = 4" "le_int x = a"
    using pack_I_ok [OF assms(1,2)] by blast
  obtain y where y: "pack_I b = Inr y" "length y = 4" "le_int y = b"
    using pack_I_ok [OF assms(3,4)] by blast
  show ?thesis using x y by (simp add: pack_II_def)
qed

lemma pack_BII_ok:
  assumes "0 \<le> n" "n \<le> 255" "0 \<le> a" "a \<le> 4294967295" "0 \<le> b" "b \<le> 4294967295"
  shows "\<exists>bs. pack_BII n a b = Inr bs \<and> length bs = 9 \<and> le_int (take 1 bs) = n
           \<and> le_int (take 4 (drop 1 bs)) = a \<and> le_int (drop 5 bs) = b"
proof -
  obtain x where x: "pack_B n = Inr x" "length x = 1" "le_int x = n"
    using pack_B_ok [OF assms(1,2)] by blast
  obtain y where y: "pack_II a b = Inr y" "length y = 8" "le_int (take 4 y) = a" "le_int (drop 4 y) = b"
    using pack_II_ok [OF assms(3-6)] by blast
  show ?thesis using x y by (simp add: pack_BII_def)
qed

lemma uint_crc_range: "0 \<le> uint (w :: 32 word)" "uint (w :: 32 word) \<le> 4294967295"
  using uint_bounded [of w] by simp_all

lemma unpack_IBI_padded:
  "unpack_IBI (take 5 r @ 0x00 # drop 5 r) =
     (if length r = 8
      then Inr (le_int (take 4 r), le_int (take 1 (drop 4 r)), 256 * le_int (drop 5 r))
      else Inl StructError)"
proof (cases "length r = 8")
  case True
  then have "length (take 5 r @ 0x00 # drop 5 r) = 9" by simp
  moreover have "take 4 (take 5 r @ 0x00 # drop 5 r) = take 4 r" using True by simp
  moreover have "take 1 (drop 4 (take 5 r @ 0x00 # drop 5 r)) = take 1 (drop 4 r)"
    using True by (simp add: drop_take)
  moreover have "drop 5 (take 5 r @ 0x00 # drop 5 r) = 0x00 # drop 5 r" using True by simp
  ultimately show ?thesis using True by (simp add: unpack_IBI_def del: le_int.simps) simp
next
  case False
  then have "length (take 5 r @ 0x00 # drop 5 r) \<noteq> 9" by auto
  then show ?thesis using False by (simp add: unpack_IBI_def)
qed

lemma enterDFU_ok:
  assumes "pack_I prodID = Inr payload" "length payload = 4"
    and "pending l = Some (cmdHandle P, d) # rest" "success_reply d respData"
  shows "enterDFU P prodID l =
           (if length respData = 8
            then Inr (le_int (take 4 respData), le_int (take 1 (drop 4 respData)),
                      256 * le_int (drop 5 respData))
            else Inl StructError,
            l\<lparr>writes := writes l @ slices 20 (packet_of CMD_ENTER_DFU payload), pending := rest,
               dhandle := Some (cmdHandle P), ddata := Some d\<rparr>)"
proof -
  have c: "length CMD_ENTER_DFU = 1" by (simp add: CMD_ENTER_DFU_def)
  have p: "length payload \<le> 65535" using assms(2) by simp
  show ?thesis
    using assms(1)
    by (simp add: enterDFU_def sendCommandGetResponse_ok [OF c p assms(3,4)] unpack_IBI_padded)
qed

text \<open>
  Claim C5, as the code has it. \<open>enterDFU\<close> sends the product id as a four-byte
  little-endian payload. From a successful response it decodes a payload of exactly
  eight bytes: bytes 0 to 3 as the JTAG id (little-endian), byte 4 as the device
  revision, and a zero byte followed by bytes 5 to 7 as the SDK version (little-endian),
  which is 256 times the little-endian value of bytes 5 to 7. A response payload of any
  other length, nine bytes included, ends in \<open>struct.error\<close>.
\<close>

theorem enterDFU_payload_and_response:
  assumes "0 \<le> prodID" "prodID \<le> 4294967295"
    and "pending l = Some (cmdHandle P, d) # rest" "success_reply d respData"
  shows "\<exists>payload l'. pack_I prodID = Inr payload \<and> length payload = 4 \<and> le_int payload = prodID
           \<and> writes l' = writes l @ slices 20 (packet_of CMD_ENTER_DFU payload)
           \<and> enterDFU P prodID l =
               (if length respData = 8
                then Inr (le_int (take 4 respData), le_int (take 1 (drop 4 respData)),
                          le_int (0x00 # drop 5 respData))
                else Inl StructError, l')"
proof -
  obtain payload where p: "pack_I prodID = Inr payload" "length payload = 4" "le_int payload = prodID"
    using pack_I_ok [OF assms(1,2)] by blast
  let ?l' = "l\<lparr>writes := writes l @ slices 20 (packet_of CMD_ENTER_DFU payload), pending := rest,
               dhandle := Some (cmdHandle P), ddata := Some d\<rparr>"
  have "enterDFU P prodID l =
               (if length respData = 8
                then Inr (le_int (take 4 respData), le_int (take 1 (drop 4 respData)),
                          le_int (0x00 # drop 5 respData))
                else Inl StructError, ?l')"
    using enterDFU_ok [OF p(1,2) assms(3,4)] by simp
  then show ?thesis using p by (intro exI [of _ payload] exI [of _ ?l']) simp
qed

lemma success_reply_eight: "success_reply [1, 0, 8, 0, 1, 2, 3, 4, 5, 6, 7, 8, 211, 255, 23] [1, 2, 3, 4, 5, 6, 7, 8]"
  by (simp add: success_reply_def getResponse_def calcChecksum_2sComplement_16bit_def
        START_OF_PACKET_def END_OF_PACKET_def)

lemma success_reply_nine:
  "success_reply [1, 0, 9, 0, 1, 2, 3, 4, 5, 6, 7, 8, 9, 201, 255, 23] [1, 2, 3, 4, 5, 6, 7, 8, 9]"
  by (simp add: success_reply_def getResponse_def calcChecksum_2sComplement_16bit_def
        START_OF_PACKET_def END_OF_PACKET_def)

theorem enterDFU_payload_and_response_witness:
  "(0::int) \<le> 305419896 \<and> (305419896::int) \<le> 4294967295
   \<and> pending \<lparr>writes = [], pending = [Some (7, [1, 0, 8, 0, 1, 2, 3, 4, 5, 6, 7, 8, 211, 255, 23])],
              dhandle = None, ddata = None\<rparr>
       = Some (cmdHandle \<lparr>cmdHandle = 7, cccdValue = [1, 0]\<rparr>,
               [1, 0, 8, 0, 1, 2, 3, 4, 5, 6, 7, 8, 211, 255, 23]) # []
   \<and> success_reply [1, 0, 8, 0, 1, 2, 3, 4, 5, 6, 7, 8, 211, 255, 23] [1, 2, 3, 4, 5, 6, 7, 8]
   \<and> pack_I 305419896 = Inr [0x78, 0x56, 0x34, 0x12]
   \<and> fst (enterDFU \<lparr>cmdHandle = 7, cccdValue = [1, 0]\<rparr> 305419896
             \<lparr>writes = [], pending = [Some (7, [1, 0, 8, 0, 1, 2, 3, 4, 5, 6, 7, 8, 211, 255, 23])],
                dhandle = None, ddata = None\<rparr>)
       = Inr (0x04030201, 0x05, 0x08070600)"
proof -
  let ?P = "\<lparr>cmdHandle = 7, cccdValue = [1, 0]\<rparr>"
  let ?d = "[1, 0, 8, 0, 1, 2, 3, 4, 5, 6, 7, 8, 211, 255, 23] :: byte list"
  let ?l = "\<lparr>writes = [], pending = [Some (7, ?d)], dhandle = None, ddata = None\<rparr>"
  have a: "(0::int) \<le> 305419896" and b: "(305419896::int) \<le> 4294967295" by simp_all
  have c: "pending ?l = Some (cmdHandle ?P, ?d) # []" by simp
  have p: "pack_I 305419896 = Inr [0x78, 0x56, 0x34, 0x12]" by (simp add: pack_I_def)
  obtain l' where "enterDFU ?P 305419896 ?l =
      (if length [1, 2, 3, 4, 5, 6, 7, 8 :: byte] = 8
       then Inr (le_int (take 4 [1, 2, 3, 4, 5, 6, 7, 8]), le_int (take 1 (drop 4 [1, 2, 3, 4, 5, 6, 7, 8])),
                 le_int (0x00 # drop 5 [1, 2, 3, 4, 5, 6, 7, 8]))
       else Inl StructError, l')"
    using enterDFU_payload_and_response [OF a b c success_reply_eight] by blast
  then have "fst (enterDFU ?P 305419896 ?l) = Inr (0x04030201, 0x05, 0x08070600)" by simp
  then show ?thesis using a b c p success_reply_eight by simp
qed

theorem enterDFU_nine_bytes_counterexample:
  "getResponse [1, 0, 9, 0, 1, 2, 3, 4, 5, 6, 7, 8, 9, 201, 255, 23]
       = Inr ([0x00], [1, 2, 3, 4, 5, 6, 7, 8, 9])
   \<and> fst (enterDFU \<lparr>cmdHandle = 7, cccdValue = [1, 0]\<rparr> 305419896
             \<lparr>writes = [], pending = [Some (7, [1, 0, 9, 0, 1, 2, 3, 4, 5, 6, 7, 8, 9, 201, 255, 23])],
                dhandle = None, ddata = None\<rparr>)
       = Inl StructError"
proof -
  let ?P = "\<lparr>cmdHandle = 7, cccdValue = [1, 0]\<rparr>"
  let ?d = "[1, 0, 9, 0, 1, 2, 3, 4, 5, 6, 7, 8, 9, 201, 255, 23] :: byte list"
  let ?l = "\<lparr>writes = [], pending = [Some (7, ?d)], dhandle = None, ddata = None\<rparr>"
  have c: "pending ?l = Some (cmdHandle ?P, ?d) # []" by simp
  have p: "pack_I 305419896 = Inr [0x78, 0x56, 0x34, 0x12]" by (simp add: pack_I_def)
  have "fst (enterDFU ?P 305419896 ?l) = Inl StructError"
    using enterDFU_ok [OF p _ c success_reply_nine] by simp
  then show ?thesis using success_reply_nine by (simp add: success_reply_def)
qed

subsection \<open>Slices\<close>

lemma slices_Nil [simp]: "slices n [] = []"
  by (simp add: slices.simps)

lemma slices_step: "0 < n \<Longrightarrow> xs \<noteq> [] \<Longrightarrow> slices n xs = take n xs # slices n (drop n xs)"
  by (subst slices.simps) simp

lemma slices_short: "0 < n \<Longrightarrow> xs \<noteq> [] \<Longrightarrow> length xs \<le> n \<Longrightarrow> slices n xs = [xs]"
  by (simp add: slices_step)

lemma concat_slices: "0 < n \<Longrightarrow> concat (slices n xs) = xs"
proof (induction n xs rule: slices.induct)
  case (1 n xs)
  show ?case
  proof (cases "xs = []")
    case True
    then show ?thesis by simp
  next
    case False
    then show ?thesis using 1 by (simp add: slices_step)
  qed
qed

lemma slices_lengths: "c \<in> set (slices n xs) \<Longrightarrow> 0 < length c \<and> length c \<le> n"
proof (induction n xs rule: slices.induct)
  case (1 n xs)
  show ?case
  proof (cases "n = 0 \<or> xs = []")
    case True
    then show ?thesis using 1(2) by (auto simp: slices.simps)
  next
    case False
    then have "slices n xs = take n xs # slices n (drop n xs)" by (simp add: slices_step)
    then show ?thesis using 1 False by auto
  qed
qed

lemma slices_nonempty: "0 < n \<Longrightarrow> xs \<noteq> [] \<Longrightarrow> slices n xs \<noteq> []"
  by (simp add: slices_step)

lemma slices_1300:
  assumes "length xs = 1300"
  shows "map length (slices 512 xs) = [512, 512, 276]"
proof -
  have a: "slices 512 xs = take 512 xs # slices 512 (drop 512 xs)"
    using assms by (intro slices_step) auto
  have b: "slices 512 (drop 512 xs) = take 512 (drop 512 xs) # slices 512 (drop 1024 xs)"
    using slices_step [of 512 "drop 512 xs"] assms by simp
  have c: "slices 512 (drop 1024 xs) = [drop 1024 xs]"
    using assms by (intro slices_short) auto
  show ?thesis using assms by (simp add: a b c)
qed

section \<open>Properties of the update orchestrator\<close>

lemma written_Nil [simp]: "written [] = []"
  by (simp add: written_def)

lemma written_Cons: "written (p # ps) = slices 20 p @ written ps"
  by (simp add: written_def)

lemma written_append: "written (ps @ qs) = written ps @ written qs"
  by (simp add: written_def)

lemma written_single: "written [p] = slices 20 p"
  by (simp add: written_def)

lemma link_updates_eq:
  "(k :: link)\<lparr>writes := w, pending := p, dhandle := h, ddata := d\<rparr>
     = \<lparr>writes = w, pending = p, dhandle = h, ddata = d\<rparr>"
  by (cases k) simp

lemma pack_I_u32: "0 \<le> v \<Longrightarrow> v \<le> 4294967295 \<Longrightarrow> pack_I v = Inr (u32_bytes v)"
  by (simp add: pack_I_def u32_bytes_def)

lemma pack_B_u8: "0 \<le> v \<Longrightarrow> v \<le> 255 \<Longrightarrow> pack_B v = Inr (u8_bytes v)"
  by (simp add: pack_B_def u8_bytes_def)

lemma length_u32 [simp]: "length (u32_bytes v) = 4"
  by (simp add: u32_bytes_def)

lemma length_u8 [simp]: "length (u8_bytes v) = 1"
  by (simp add: u8_bytes_def)

lemma sendData_ok:
  assumes "length data \<le> 65535"
    and "pending l = Some (cmdHandle P, d) # rest" "success_reply d resp"
  shows "sendData P data l =
           (Inr (), l\<lparr>writes := writes l @ written [packet_of CMD_SEND_DATA data], pending := rest,
                        dhandle := Some (cmdHandle P), ddata := Some d\<rparr>)"
proof -
  have c: "length CMD_SEND_DATA = 1" by (simp add: CMD_SEND_DATA_def)
  show ?thesis
    by (simp add: sendData_def sendCommandGetResponse_ok [OF c assms] written_single)
qed

lemma programData_ok:
  assumes "0 \<le> rowAddr" "rowAddr \<le> 4294967295" "0 \<le> crc" "crc \<le> 4294967295"
    and "length data \<le> 65527"
    and "pending l = Some (cmdHandle P, d) # rest" "success_reply d resp"
  shows "programData P rowAddr crc data l =
           (Inr (), l\<lparr>writes := writes l
                          @ written [packet_of CMD_PROGRAM_DATA (u32_bytes rowAddr @ u32_bytes crc @ data)],
                        pending := rest, dhandle := Some (cmdHandle P), ddata := Some d\<rparr>)"
proof -
  have c: "length CMD_PROGRAM_DATA = 1" by (simp add: CMD_PROGRAM_DATA_def)
  have p: "length (u32_bytes rowAddr @ u32_bytes crc @ data) \<le> 65535" using assms(5) by simp
  show ?thesis
    using assms(1-4)
    by (simp add: programData_def pack_II_def pack_I_u32
          sendCommandGetResponse_ok [OF c p assms(6,7)] written_single)
qed

lemma setApplicationMetadata_ok:
  assumes "0 \<le> appNum" "appNum \<le> 255" "0 \<le> a" "a \<le> 4294967295" "0 \<le> b" "b \<le> 4294967295"
    and "pending l = Some (cmdHandle P, d) # rest" "success_reply d resp"
  shows "setApplicationMetadata P appNum a b l =
           (Inr (), l\<lparr>writes := writes l
                          @ written [packet_of CMD_SET_APPLICATION_METADATA
                                       (u8_bytes appNum @ u32_bytes a @ u32_bytes b)],
                        pending := rest, dhandle := Some (cmdHandle P), ddata := Some d\<rparr>)"
proof -
  have c: "length CMD_SET_APPLICATION_METADATA = 1" by (simp add: CMD_SET_APPLICATION_METADATA_def)
  have p: "length (u8_bytes appNum @ u32_bytes a @ u32_bytes b) \<le> 65535" by simp
  show ?thesis
    using assms(1-6)
    by (simp add: setApplicationMetadata_def pack_BII_def pack_II_def pack_I_u32 pack_B_u8
          sendCommandGetResponse_ok [OF c p assms(7,8)] written_single)
qed

lemma verifyApplication_ok:
  assumes "0 \<le> appNum" "appNum \<le> 255"
    and "pending l = Some (cmdHandle P, d) # rest" "success_reply d [v]"
  shows "verifyApplication P appNum l =
           (Inr (uint v), l\<lparr>writes := writes l @ written [packet_of CMD_VERIFY_APPLICATION (u8_bytes appNum)],
                               pending := rest, dhandle := Some (cmdHandle P), ddata := Some d\<rparr>)"
proof -
  have c: "length CMD_VERIFY_APPLICATION = 1" by (simp add: CMD_VERIFY_APPLICATION_def)
  have p: "length (u8_bytes appNum) \<le> 65535" by simp
  show ?thesis
    using assms(1,2)
    by (simp add: verifyApplication_def pack_B_u8
          sendCommandGetResponse_ok [OF c p assms(3,4)] written_single)
qed

lemma enterDFU_u32_ok:
  assumes "0 \<le> prodID" "prodID \<le> 4294967295"
    and "pending l = Some (cmdHandle P, d) # rest" "success_reply d respData" "length respData = 8"
  shows "\<exists>ids. enterDFU P prodID l =
           (Inr ids, l\<lparr>writes := writes l @ written [packet_of CMD_ENTER_DFU (u32_bytes prodID)],
                         pending := rest, dhandle := Some (cmdHandle P), ddata := Some d\<rparr>)"
  using enterDFU_ok [OF pack_I_u32 [OF assms(1,2)] length_u32 assms(3,4)] assms(5)
  by (simp add: written_single)

lemma exitDFU_ok:
  "exitDFU l = (Inr (), l\<lparr>writes := writes l @ written [packet_of CMD_EXIT_DFU []]\<rparr>)"
proof -
  have "createCmdPacket CMD_EXIT_DFU [] = Inr (packet_of CMD_EXIT_DFU [])"
    by (intro createCmdPacket_packet_of) (simp_all add: CMD_EXIT_DFU_def)
  then show ?thesis by (simp add: exitDFU_def sendPacket_def written_single)
qed

lemma sendChunks_ok:
  assumes "\<forall>c \<in> set chunks. length c \<le> 65535"
    and "pending l = map (\<lambda>d. Some (cmdHandle P, d)) replies @ rest"
    and "length replies = length chunks"
    and "\<forall>d \<in> set replies. \<exists>x. success_reply d x"
  shows "\<exists>l'. sendChunks P chunks l = (Inr (), l')
           \<and> writes l' = writes l @ written (map (packet_of CMD_SEND_DATA) chunks)
           \<and> pending l' = rest"
  using assms
proof (induction chunks arbitrary: l replies)
  case Nil
  then show ?case by simp
next
  case (Cons c chunks)
  obtain d ds where r: "replies = d # ds" using Cons.prems(3) by (cases replies) auto
  obtain x where x: "success_reply d x" using Cons.prems(4) r by auto
  let ?l1 = "l\<lparr>writes := writes l @ written [packet_of CMD_SEND_DATA c],
               pending := map (\<lambda>d. Some (cmdHandle P, d)) ds @ rest,
               dhandle := Some (cmdHandle P), ddata := Some d\<rparr>"
  have len: "length c \<le> 65535" using Cons.prems(1) by simp
  have pend: "pending l = Some (cmdHandle P, d) # (map (\<lambda>d. Some (cmdHandle P, d)) ds @ rest)"
    using Cons.prems(2) r by simp
  have step: "sendData P c l = (Inr (), ?l1)"
    using sendData_ok [OF len pend x] .
  obtain l' where l': "sendChunks P chunks ?l1 = (Inr (), l')"
      "writes l' = writes ?l1 @ written (map (packet_of CMD_SEND_DATA) chunks)" "pending l' = rest"
    using Cons.IH [of ?l1 ds] Cons.prems r by auto
  show ?case
    using step l' by (intro exI [of _ l']) (simp add: written_Cons)
qed

lemma slices_le_whole: "c \<in> set (slices n xs) \<Longrightarrow> length c \<le> length xs"
proof (induction n xs rule: slices.induct)
  case (1 n xs)
  show ?case
  proof (cases "n = 0 \<or> xs = []")
    case True
    then show ?thesis using 1(2) by (auto simp: slices.simps)
  next
    case False
    then have "slices n xs = take n xs # slices n (drop n xs)" by (simp add: slices_step)
    then have "c = take n xs \<or> c \<in> set (slices n (drop n xs))" using 1(2) by auto
    then show ?thesis
    proof
      assume "c = take n xs"
      then show ?thesis by simp
    next
      assume "c \<in> set (slices n (drop n xs))"
      then have "length c \<le> length (drop n xs)" using 1(1) False by blast
      then show ?thesis by simp
    qed
  qed
qed

lemma sendRow_ok:
  assumes "0 < m" "m \<le> 65527 \<or> length rowData \<le> 65527" "rowData \<noteq> []"
    and "0 \<le> rowAddr" "rowAddr \<le> 4294967295"
    and "pending l = map (\<lambda>d. Some (cmdHandle P, d)) replies @ rest"
    and "length replies = length (slices (nat m) rowData)"
    and "\<forall>d \<in> set replies. \<exists>x. success_reply d x"
  shows "\<exists>l'. sendRow crc32cFunc P m rowAddr rowData l = (Inr (), l')
           \<and> writes l' = writes l
                @ written (map (packet_of CMD_SEND_DATA) (butlast (slices (nat m) rowData))
                           @ [packet_of CMD_PROGRAM_DATA
                                (u32_bytes rowAddr @ u32_bytes (uint (crc32cFunc rowData))
                                 @ last (slices (nat m) rowData))])
           \<and> pending l' = rest"
proof -
  let ?chunks = "slices (nat m) rowData"
  have n: "0 < nat m" using assms(1) by simp
  have ne: "?chunks \<noteq> []" using slices_nonempty [OF n assms(3)] .
  have sl: "slices_by m rowData = Inr ?chunks" using assms(1) by (simp add: slices_by_def)
  have lens: "\<forall>c \<in> set ?chunks. length c \<le> 65527"
  proof
    fix c assume c: "c \<in> set ?chunks"
    have "length c \<le> nat m" using c slices_lengths by blast
    moreover have "length c \<le> length rowData" using c by (rule slices_le_whole)
    ultimately show "length c \<le> 65527" using assms(2) by linarith
  qed
  have rne: "replies \<noteq> []" using assms(7) ne by auto
  then have rsplit: "replies = butlast replies @ [last replies]" by simp
  have pend: "pending l = map (\<lambda>d. Some (cmdHandle P, d)) (butlast replies)
                @ (Some (cmdHandle P, last replies) # rest)"
    using assms(6) by (subst (asm) rsplit) simp
  have a: "\<forall>c \<in> set (butlast ?chunks). length c \<le> 65535"
  proof
    fix c assume "c \<in> set (butlast ?chunks)"
    then have "c \<in> set ?chunks" by (rule in_set_butlastD)
    then have "length c \<le> 65527" using lens by blast
    then show "length c \<le> 65535" by simp
  qed
  have b: "length (butlast replies) = length (butlast ?chunks)" using assms(7) by simp
  have c: "\<forall>d \<in> set (butlast replies). \<exists>x. success_reply d x"
    using assms(8) by (auto dest: in_set_butlastD)
  obtain l1 where l1: "sendChunks P (butlast ?chunks) l = (Inr (), l1)"
      "writes l1 = writes l @ written (map (packet_of CMD_SEND_DATA) (butlast ?chunks))"
      "pending l1 = Some (cmdHandle P, last replies) # rest"
    using sendChunks_ok [OF a pend b c] by blast
  obtain x where x: "success_reply (last replies) x"
    using assms(8) rne last_in_set by blast
  have ll: "length (last ?chunks) \<le> 65527" using lens ne last_in_set by blast
  let ?l2 = "l1\<lparr>writes := writes l1
                 @ written [packet_of CMD_PROGRAM_DATA
                              (u32_bytes rowAddr @ u32_bytes (uint (crc32cFunc rowData)) @ last ?chunks)],
               pending := rest, dhandle := Some (cmdHandle P), ddata := Some (last replies)\<rparr>"
  have pd: "programData P rowAddr (uint (crc32cFunc rowData)) (last ?chunks) l1 = (Inr (), ?l2)"
    using programData_ok [OF assms(4,5) uint_crc_range ll l1(3) x] .
  have "sendRow crc32cFunc P m rowAddr rowData l = (Inr (), ?l2)"
    using sl l1(1) ne pd by (simp add: sendRow_def Let_def)
  then show ?thesis
    using l1(2) by (intro exI [of _ ?l2]) (simp add: written_append)
qed

text \<open>
  Claim C8, as the code has it. For a row with at least one data byte, a piece size
  \<open>maxDataLength\<close> of at least 1, pieces of at most 65527 bytes (the piece size or the
  row is that small), a row address that fits 32 bits, and a device that answers every
  command of the row with status \<open>0x00\<close>: the row data is cut into consecutive pieces of at most
  \<open>maxDataLength\<close> bytes, none empty, that concatenate to the row data; every piece but
  the last is sent in a \<open>sendData\<close> packet and the last in a \<open>programData\<close> packet whose
  payload starts with the row address and the CRC of the whole row data; nothing else
  is written. A row of 1300 bytes with \<open>maxDataLength = 512\<close> is cut into pieces of 512,
  512 and 276 bytes.
\<close>

theorem sendRow_chunks:
  assumes "0 < maxDataLength" "maxDataLength \<le> 65527 \<or> length rowData \<le> 65527"
    and "rowData \<noteq> []" "0 \<le> rowAddr" "rowAddr \<le> 4294967295"
    and "pending l = map (\<lambda>d. Some (cmdHandle P, d)) replies @ rest"
    and "length replies = length (slices (nat maxDataLength) rowData)"
    and "\<forall>d \<in> set replies. \<exists>x. success_reply d x"
  shows "concat (slices (nat maxDataLength) rowData) = rowData
       \<and> (\<forall>c \<in> set (slices (nat maxDataLength) rowData). 0 < length c \<and> int (length c) \<le> maxDataLength)
       \<and> (\<exists>l'. sendRow crc32cFunc P maxDataLength rowAddr rowData l = (Inr (), l')
             \<and> writes l' = writes l
                  @ written (map (packet_of CMD_SEND_DATA) (butlast (slices (nat maxDataLength) rowData))
                             @ [packet_of CMD_PROGRAM_DATA
                                  (u32_bytes rowAddr @ u32_bytes (uint (crc32cFunc rowData))
                                   @ last (slices (nat maxDataLength) rowData))])
             \<and> pending l' = rest)
       \<and> (maxDataLength = 512 \<and> length rowData = 1300 \<longrightarrow>
             map length (slices (nat maxDataLength) rowData) = [512, 512, 276])"
proof -
  have n: "0 < nat maxDataLength" using assms(1) by simp
  have a: "concat (slices (nat maxDataLength) rowData) = rowData"
    using concat_slices [OF n] .
  have b: "\<forall>c \<in> set (slices (nat maxDataLength) rowData). 0 < length c \<and> int (length c) \<le> maxDataLength"
  proof
    fix c assume "c \<in> set (slices (nat maxDataLength) rowData)"
    then have "0 < length c \<and> length c \<le> nat maxDataLength" by (rule slices_lengths)
    then show "0 < length c \<and> int (length c) \<le> maxDataLength" by linarith
  qed
  have c: "maxDataLength = 512 \<and> length rowData = 1300 \<longrightarrow>
             map length (slices (nat maxDataLength) rowData) = [512, 512, 276]"
    using slices_1300 [of rowData] by auto
  show ?thesis
    using a b c sendRow_ok [OF assms, of crc32cFunc] by blast
qed

end
